theory Spec2Isabelle
  imports Main "HOL-Library.AList"
begin

section \<open>The per-class fixture lifecycle of basetest.BeforeAfterTestCaseMeta\<close>

text \<open>
  The metaclass \<^verbatim>\<open>BeforeAfterTestCaseMeta\<close> of \<^verbatim>\<open>google/apputils/basetest.py\<close> wraps
  \<^verbatim>\<open>setUp\<close>, \<^verbatim>\<open>tearDown\<close> and every test method of each class it initialises, so that
  \<^verbatim>\<open>setUpTestCase\<close> and \<^verbatim>\<open>tearDownTestCase\<close> run around the tests of a class.

  The embedding keeps what the wrappers read and write:
  \<^item> a function object is a value of \<open>meth\<close>: a function written by the user
    (\<open>Orig\<close>), or one of the three closures the metaclass creates, holding the
    variables it closes over (\<^verbatim>\<open>test_names\<close>, \<^verbatim>\<open>cls_setUp\<close>, \<^verbatim>\<open>cls_tearDown\<close>,
    \<^verbatim>\<open>cls_test\<close>, \<^verbatim>\<open>test_name\<close>) and its own \<^verbatim>\<open>__name__\<close>, \<^verbatim>\<open>__doc__\<close>, \<^verbatim>\<open>__module__\<close>;
  \<^item> a class is its own namespace followed by the namespaces of its ancestors in
    method resolution order (single inheritance);
  \<^item> the name-mangled class attribute \<^verbatim>\<open>__tests_to_run\<close> is a slot per class name,
    \<open>None\<close> for Python's \<^verbatim>\<open>None\<close>;
  \<^item> a function written by the user is a plain function (\<open>Orig\<close>): running it is
    recorded in a trace, and it returns or raises; or it is a function that runs a
    first part, calls the method it overrides as the base class shows it, that is
    already wrapped (\<^verbatim>\<open>Base.tearDown(self)\<close>), and then runs a second part (\<open>Calls\<close>).
    User code does not touch \<^verbatim>\<open>__tests_to_run\<close>.
\<close>

subsection \<open>Function objects\<close>

type_synonym cname = string
type_synonym tname = string

record meta =
  fn_name :: string
  fn_doc :: "string option"
  fn_module :: string

datatype outcome = Returns | Raises

record body =
  b_meta :: meta
  b_label :: string
  b_outcome :: outcome

datatype meth =
    Orig body
  | Calls body meth body
  | SetUpW meta "tname set" meth
  | TearDownW meta meth
  | TestW meta tname meth

fun meta_of :: "meth \<Rightarrow> meta" where
  "meta_of (Orig b) = b_meta b"
| "meta_of (Calls b inherited b') = b_meta b"
| "meta_of (SetUpW mt test_names cls_setUp) = mt"
| "meta_of (TearDownW mt cls_tearDown) = mt"
| "meta_of (TestW mt test_name cls_test) = mt"

fun set_meta :: "meta \<Rightarrow> meth \<Rightarrow> meth" where
  "set_meta mt (Orig b) = Orig (b\<lparr>b_meta := mt\<rparr>)"
| "set_meta mt (Calls b inherited b') = Calls (b\<lparr>b_meta := mt\<rparr>) inherited b'"
| "set_meta mt (SetUpW mt0 test_names cls_setUp) = SetUpW mt test_names cls_setUp"
| "set_meta mt (TearDownW mt0 cls_tearDown) = TearDownW mt cls_tearDown"
| "set_meta mt (TestW mt0 test_name cls_test) = TestW mt test_name cls_test"

text \<open>
  The metadata Python gives the three closures when their \<^verbatim>\<open>def\<close> statements run,
  before \<^verbatim>\<open>SetMethod\<close> overwrites it.
\<close>

definition def_meta :: "string \<Rightarrow> meta" where
  "def_meta n = \<lparr>fn_name = n, fn_doc = None, fn_module = ''google.apputils.basetest''\<rparr>"

subsection \<open>Classes\<close>

record layer =
  l_name :: cname
  l_dict :: "(string \<times> meth) list"
  l_setUpTestCase :: "outcome option"
  l_tearDownTestCase :: "outcome option"

record pyclass =
  own :: layer
  ancestors :: "layer list"

definition cname :: "pyclass \<Rightarrow> cname" where
  "cname cls = l_name (own cls)"

definition mro :: "pyclass \<Rightarrow> layer list" where
  "mro cls = own cls # ancestors cls"

fun lookup_mro :: "('l \<Rightarrow> 'a option) \<Rightarrow> 'l list \<Rightarrow> 'a option" where
  "lookup_mro f [] = None"
| "lookup_mro f (l # ls) = (case f l of Some v \<Rightarrow> Some v | None \<Rightarrow> lookup_mro f ls)"

definition getattr :: "pyclass \<Rightarrow> string \<Rightarrow> meth option" where
  "getattr cls n = lookup_mro (\<lambda>l. map_of (l_dict l) n) (mro cls)"

definition setattr :: "pyclass \<Rightarrow> string \<Rightarrow> meth \<Rightarrow> pyclass" where
  "setattr cls n v = cls\<lparr>own := (own cls)\<lparr>l_dict := AList.update n v (l_dict (own cls))\<rparr>\<rparr>"

text \<open>
  \<^verbatim>\<open>unittest\<close>'s \<^verbatim>\<open>getTestCaseNames(cls)\<close>: the names in \<^verbatim>\<open>dir(cls)\<close> that start with
  \<^verbatim>\<open>test\<close> and are callable (every entry of a namespace here is a function). The
  loader sorts them; the metaclass turns the result into a set at once.
\<close>

definition dir :: "pyclass \<Rightarrow> string list" where
  "dir cls = remdups (concat (map (\<lambda>l. map fst (l_dict l)) (mro cls)))"

definition isTestMethod :: "string \<Rightarrow> bool" where
  "isTestMethod n = (take 4 n = ''test'')"

definition getTestCaseNames :: "pyclass \<Rightarrow> tname list" where
  "getTestCaseNames cls = filter isTestMethod (dir cls)"

text \<open>
  The class statement \<^verbatim>\<open>class name(base): ...\<close> before the metaclass runs: the
  functions of the class body and the hooks it declares, if any.
\<close>

definition new_class ::
  "cname \<Rightarrow> pyclass \<Rightarrow> (string \<times> body) list \<Rightarrow> outcome option \<Rightarrow> outcome option \<Rightarrow> pyclass" where
  "new_class name base decl hb ha =
     \<lparr>own = \<lparr>l_name = name, l_dict = map (\<lambda>(n, b). (n, Orig b)) decl,
              l_setUpTestCase = hb, l_tearDownTestCase = ha\<rparr>,
      ancestors = mro base\<rparr>"

subsection \<open>Run-time state\<close>

datatype event = Before cname | After cname | Ran cname string

fun ev_class :: "event \<Rightarrow> cname" where
  "ev_class (Before c) = c"
| "ev_class (After c) = c"
| "ev_class (Ran c l) = c"

datatype exn = Raised string | AttributeError

type_synonym result = "exn + unit"

record state =
  tests_to_run :: "cname \<Rightarrow> tname set option"
  trace :: "event list"

definition run_body :: "cname \<Rightarrow> body \<Rightarrow> state \<Rightarrow> result \<times> state" where
  "run_body c b s =
     (case b_outcome b of
        Returns \<Rightarrow> (Inr (), s\<lparr>trace := trace s @ [Ran c (b_label b)]\<rparr>)
      | Raises \<Rightarrow> (Inl (Raised (b_label b)), s\<lparr>trace := trace s @ [Ran c (b_label b)]\<rparr>))"

text \<open>
  \<^verbatim>\<open>self.setUpTestCase()\<close> and \<^verbatim>\<open>self.tearDownTestCase()\<close>: the hook found on the
  instance's class, or the no-op that \<^verbatim>\<open>SetBeforeAfterTestCaseAttr\<close> puts on
  \<^verbatim>\<open>TestCase\<close>, the last class of every method resolution order.
\<close>

definition hook_outcome :: "(layer \<Rightarrow> outcome option) \<Rightarrow> pyclass \<Rightarrow> outcome" where
  "hook_outcome h leaf = (case lookup_mro h (mro leaf) of Some oc \<Rightarrow> oc | None \<Rightarrow> Returns)"

definition setUpTestCase :: "pyclass \<Rightarrow> state \<Rightarrow> result \<times> state" where
  "setUpTestCase leaf s =
     (case hook_outcome l_setUpTestCase leaf of
        Returns \<Rightarrow> (Inr (), s\<lparr>trace := trace s @ [Before (cname leaf)]\<rparr>)
      | Raises \<Rightarrow> (Inl (Raised ''setUpTestCase''), s\<lparr>trace := trace s @ [Before (cname leaf)]\<rparr>))"

definition tearDownTestCase :: "pyclass \<Rightarrow> state \<Rightarrow> result \<times> state" where
  "tearDownTestCase leaf s =
     (case hook_outcome l_tearDownTestCase leaf of
        Returns \<Rightarrow> (Inr (), s\<lparr>trace := trace s @ [After (cname leaf)]\<rparr>)
      | Raises \<Rightarrow> (Inl (Raised ''tearDownTestCase''), s\<lparr>trace := trace s @ [After (cname leaf)]\<rparr>))"

subsection \<open>The wrappers\<close>

text \<open>
  \<open>exec leaf m s\<close> calls the function \<open>m\<close> on an instance whose class is \<open>leaf\<close>
  (\<^verbatim>\<open>leaf = self.__class__\<close>). An exception in a part of a user function, or in the method
  it calls, ends the function. The three closures are the bodies of \<^verbatim>\<open>setUp\<close>,
  \<^verbatim>\<open>tearDown\<close> and \<^verbatim>\<open>test\<close> in \<^verbatim>\<open>SetSetUpAttr\<close>, \<^verbatim>\<open>SetTearDownAttr\<close> and
  \<^verbatim>\<open>SetTestMethodAttrs\<close>; \<^verbatim>\<open>None.discard\<close> raises \<^verbatim>\<open>AttributeError\<close>.
\<close>

fun exec :: "pyclass \<Rightarrow> meth \<Rightarrow> state \<Rightarrow> result \<times> state" where
  "exec leaf (Orig b) s = run_body (cname leaf) b s"
| "exec leaf (Calls b inherited b') s =
     (case run_body (cname leaf) b s of
        (Inl e, s') \<Rightarrow> (Inl e, s')
      | (Inr u, s') \<Rightarrow>
          (case exec leaf inherited s' of
             (Inl e, s'') \<Rightarrow> (Inl e, s'')
           | (Inr u, s'') \<Rightarrow> run_body (cname leaf) b' s''))"
| "exec leaf (SetUpW mt test_names cls_setUp) s =
     (case tests_to_run s (cname leaf) of
        None \<Rightarrow>
          (case setUpTestCase leaf
                  (s\<lparr>tests_to_run := (tests_to_run s)(cname leaf := Some test_names)\<rparr>) of
             (Inl e, s') \<Rightarrow> (Inl e, s')
           | (Inr u, s') \<Rightarrow> exec leaf cls_setUp s')
      | Some S \<Rightarrow> exec leaf cls_setUp s)"
| "exec leaf (TearDownW mt cls_tearDown) s =
     (case exec leaf cls_tearDown s of
        (Inl e, s') \<Rightarrow> (Inl e, s')
      | (Inr u, s') \<Rightarrow>
          (case tests_to_run s' (cname leaf) of
             None \<Rightarrow> (Inr (), s')
           | Some S \<Rightarrow>
               if S = {}
               then tearDownTestCase leaf
                      (s'\<lparr>tests_to_run := (tests_to_run s')(cname leaf := None)\<rparr>)
               else (Inr (), s')))"
| "exec leaf (TestW mt test_name cls_test) s =
     (case tests_to_run s (cname leaf) of
        None \<Rightarrow> (Inl AttributeError, s)
      | Some S \<Rightarrow>
          exec leaf cls_test
            (s\<lparr>tests_to_run := (tests_to_run s)(cname leaf := Some (S - {test_name}))\<rparr>))"

subsection \<open>Instrumentation at class definition\<close>

definition SetMethod :: "pyclass \<Rightarrow> string \<Rightarrow> meth \<Rightarrow> pyclass option" where
  "SetMethod cls method_name replacement =
     (case getattr cls method_name of
        None \<Rightarrow> None
      | Some original \<Rightarrow> Some (setattr cls method_name (set_meta (meta_of original) replacement)))"

definition SetSetUpAttr :: "pyclass \<Rightarrow> tname set \<Rightarrow> pyclass option" where
  "SetSetUpAttr cls test_names =
     (case getattr cls ''setUp'' of
        None \<Rightarrow> None
      | Some cls_setUp \<Rightarrow>
          SetMethod cls ''setUp'' (SetUpW (def_meta ''setUp'') test_names cls_setUp))"

definition SetTearDownAttr :: "pyclass \<Rightarrow> pyclass option" where
  "SetTearDownAttr cls =
     (case getattr cls ''tearDown'' of
        None \<Rightarrow> None
      | Some cls_tearDown \<Rightarrow>
          SetMethod cls ''tearDown'' (TearDownW (def_meta ''tearDown'') cls_tearDown))"

fun SetTestMethodAttrs :: "pyclass \<Rightarrow> tname list \<Rightarrow> pyclass option" where
  "SetTestMethodAttrs cls [] = Some cls"
| "SetTestMethodAttrs cls (test_name # rest) =
     (case getattr cls test_name of
        None \<Rightarrow> None
      | Some cls_test \<Rightarrow>
          (case SetMethod cls test_name (TestW (def_meta ''test'') test_name cls_test) of
             None \<Rightarrow> None
           | Some cls' \<Rightarrow> SetTestMethodAttrs cls' rest))"

text \<open>
  \<^verbatim>\<open>BeforeAfterTestCaseMeta.__init__\<close>. A missing \<^verbatim>\<open>setUp\<close> or \<^verbatim>\<open>tearDown\<close> is an
  \<^verbatim>\<open>AttributeError\<close> at class definition (\<open>None\<close>). \<^verbatim>\<open>test_names\<close> is the loader's
  list of distinct names: the \<open>setUp\<close> wrapper closes over it as a set, and the loop of
  \<^verbatim>\<open>SetTestMethodAttrs\<close> visits each name once, in an order that does not matter since
  every step rebinds a different attribute. \<^verbatim>\<open>SetBeforeAfterTestCaseAttr\<close> only rebinds
  the default hooks of \<^verbatim>\<open>TestCase\<close>, which \<open>hook_outcome\<close> reads as its default.
\<close>

definition meta_init :: "pyclass \<Rightarrow> state \<Rightarrow> (pyclass \<times> state) option" where
  "meta_init cls s =
     (let test_names = getTestCaseNames cls;
          s' = s\<lparr>tests_to_run := (tests_to_run s)(cname cls := None)\<rparr>
      in case SetSetUpAttr cls (set test_names) of
           None \<Rightarrow> None
         | Some c1 \<Rightarrow>
             (case SetTearDownAttr c1 of
                None \<Rightarrow> None
              | Some c2 \<Rightarrow>
                  (case SetTestMethodAttrs c2 test_names of
                     None \<Rightarrow> None
                   | Some c3 \<Rightarrow> Some (c3, s'))))"

definition define_class ::
  "cname \<Rightarrow> pyclass \<Rightarrow> (string \<times> body) list \<Rightarrow> outcome option \<Rightarrow> outcome option \<Rightarrow> state
     \<Rightarrow> (pyclass \<times> state) option" where
  "define_class name base decl hb ha s = meta_init (new_class name base decl hb ha) s"

subsection \<open>The sequential test runner\<close>

text \<open>
  \<^verbatim>\<open>unittest.TestCase.run\<close>: \<^verbatim>\<open>setUp\<close>; if it raises, the error is reported and neither
  the test method nor \<^verbatim>\<open>tearDown\<close> runs; otherwise the test method, whose exception
  is caught and reported, then \<^verbatim>\<open>tearDown\<close>.
\<close>

datatype report = NoSuchMethod | SetUpFailed exn | Finished result result

definition run_test :: "pyclass \<Rightarrow> tname \<Rightarrow> state \<Rightarrow> report \<times> state" where
  "run_test leaf t s =
     (case (getattr leaf ''setUp'', getattr leaf t, getattr leaf ''tearDown'') of
        (Some su, Some tm, Some td) \<Rightarrow>
          (case exec leaf su s of
             (Inl e, s1) \<Rightarrow> (SetUpFailed e, s1)
           | (Inr u, s1) \<Rightarrow>
               (case exec leaf tm s1 of
                  (r2, s2) \<Rightarrow>
                    (case exec leaf td s2 of
                       (r3, s3) \<Rightarrow> (Finished r2 r3, s3))))
      | _ \<Rightarrow> (NoSuchMethod, s))"

fun run_suite :: "(pyclass \<times> tname) list \<Rightarrow> state \<Rightarrow> report list \<times> state" where
  "run_suite [] s = ([], s)"
| "run_suite ((leaf, t) # rest) s =
     (case run_test leaf t s of
        (r, s1) \<Rightarrow> (case run_suite rest s1 of (rs, s2) \<Rightarrow> (r # rs, s2)))"

subsection \<open>Shapes of instrumented methods\<close>

text \<open>
  The function a user wrote under a stack of wrappers, and the stacks the metaclass
  builds over a plain function: any number of \<open>setUp\<close> wrappers over an original
  \<open>setUp\<close> that calls no other method, and likewise for \<open>tearDown\<close> and for the test
  method \<open>t\<close>. Methods whose user functions call the method they override are the
  chains of the next subsection.
\<close>

fun orig_of :: "meth \<Rightarrow> body" where
  "orig_of (Orig b) = b"
| "orig_of (Calls b inherited b') = b"
| "orig_of (SetUpW mt test_names m) = orig_of m"
| "orig_of (TearDownW mt m) = orig_of m"
| "orig_of (TestW mt n m) = orig_of m"

fun pure_setUp :: "meth \<Rightarrow> bool" where
  "pure_setUp (Orig b) = True"
| "pure_setUp (Calls b inherited b') = False"
| "pure_setUp (SetUpW mt test_names m) = pure_setUp m"
| "pure_setUp (TearDownW mt m) = False"
| "pure_setUp (TestW mt n m) = False"

fun pure_tearDown :: "meth \<Rightarrow> bool" where
  "pure_tearDown (Orig b) = True"
| "pure_tearDown (Calls b inherited b') = False"
| "pure_tearDown (SetUpW mt test_names m) = False"
| "pure_tearDown (TearDownW mt m) = pure_tearDown m"
| "pure_tearDown (TestW mt n m) = False"

fun pure_test :: "tname \<Rightarrow> meth \<Rightarrow> bool" where
  "pure_test t (Orig b) = True"
| "pure_test t (Calls b inherited b') = False"
| "pure_test t (SetUpW mt test_names m) = False"
| "pure_test t (TearDownW mt m) = False"
| "pure_test t (TestW mt n m) = (n = t \<and> pure_test t m)"

text \<open>
  A class is well formed when its \<open>setUp\<close>, \<open>tearDown\<close> and visible test methods are
  such stacks (\<^verbatim>\<open>TestCase\<close> itself, with no wrapper at all, is). It is instrumented when
  the metaclass has initialised it: each of these methods carries at least one wrapper,
  and the outermost \<open>setUp\<close> wrapper closes over the test names visible on the class.
\<close>

definition well_formed :: "pyclass \<Rightarrow> bool" where
  "well_formed cls =
     ((case getattr cls ''setUp'' of Some m \<Rightarrow> pure_setUp m | None \<Rightarrow> False) \<and>
      (case getattr cls ''tearDown'' of Some m \<Rightarrow> pure_tearDown m | None \<Rightarrow> False) \<and>
      list_all (\<lambda>t. case getattr cls t of Some m \<Rightarrow> pure_test t m | None \<Rightarrow> False)
        (getTestCaseNames cls))"

definition instrumented :: "pyclass \<Rightarrow> bool" where
  "instrumented cls =
     ((case getattr cls ''setUp'' of
         Some (SetUpW mt ns m) \<Rightarrow> ns = set (getTestCaseNames cls) \<and> pure_setUp m
       | _ \<Rightarrow> False) \<and>
      (case getattr cls ''tearDown'' of
         Some (TearDownW mt m) \<Rightarrow> pure_tearDown m
       | _ \<Rightarrow> False) \<and>
      list_all (\<lambda>t. case getattr cls t of
                       Some (TestW mt n m) \<Rightarrow> n = t \<and> pure_test t m
                     | _ \<Rightarrow> False)
        (getTestCaseNames cls))"

text \<open>
  The label and the outcome of the original function behind a method of a class, and
  the call of that function on an instance.
\<close>

definition label_at :: "pyclass \<Rightarrow> string \<Rightarrow> string" where
  "label_at cls n = (case getattr cls n of Some m \<Rightarrow> b_label (orig_of m) | None \<Rightarrow> [])"

definition outcome_at :: "pyclass \<Rightarrow> string \<Rightarrow> outcome" where
  "outcome_at cls n = (case getattr cls n of Some m \<Rightarrow> b_outcome (orig_of m) | None \<Rightarrow> Raises)"

definition call_orig :: "pyclass \<Rightarrow> string \<Rightarrow> state \<Rightarrow> result \<times> state" where
  "call_orig cls n s =
     (case outcome_at cls n of
        Returns \<Rightarrow> Inr ()
      | Raises \<Rightarrow> Inl (Raised (label_at cls n)),
      s\<lparr>trace := trace s @ [Ran (cname cls) (label_at cls n)]\<rparr>)"

subsection \<open>Chains of user functions and wrappers\<close>

text \<open>
  A method found on a class is in general a chain: wrappers and user functions that
  call the method they override, down to a plain function. \<open>user_run\<close> is what the user
  code of a chain does when every wrapper on the way is idle: its result and its
  events. For a \<open>tearDown\<close> chain that fires \<open>tearDownTestCase\<close>, \<open>td_pre\<close> is the code run
  up to the end of the innermost wrapped method, after which the hook fires, and
  \<open>td_post\<close> the code with which the functions that called a wrapped method continue.
\<close>

definition body_result :: "body \<Rightarrow> result" where
  "body_result b = (case b_outcome b of Returns \<Rightarrow> Inr () | Raises \<Rightarrow> Inl (Raised (b_label b)))"

fun chain_setUp :: "meth \<Rightarrow> bool" where
  "chain_setUp (Orig b) = True"
| "chain_setUp (Calls b m b') = chain_setUp m"
| "chain_setUp (SetUpW mt test_names m) = chain_setUp m"
| "chain_setUp (TearDownW mt m) = False"
| "chain_setUp (TestW mt n m) = False"

fun chain_tearDown :: "meth \<Rightarrow> bool" where
  "chain_tearDown (Orig b) = True"
| "chain_tearDown (Calls b m b') = chain_tearDown m"
| "chain_tearDown (SetUpW mt test_names m) = False"
| "chain_tearDown (TearDownW mt m) = chain_tearDown m"
| "chain_tearDown (TestW mt n m) = False"

fun chain_test :: "tname \<Rightarrow> meth \<Rightarrow> bool" where
  "chain_test t (Orig b) = True"
| "chain_test t (Calls b m b') = chain_test t m"
| "chain_test t (SetUpW mt test_names m) = False"
| "chain_test t (TearDownW mt m) = False"
| "chain_test t (TestW mt n m) = (n = t \<and> chain_test t m)"

fun user_run :: "cname \<Rightarrow> meth \<Rightarrow> result \<times> event list" where
  "user_run c (Orig b) = (body_result b, [Ran c (b_label b)])"
| "user_run c (Calls b m b') =
     (case b_outcome b of
        Raises \<Rightarrow> (Inl (Raised (b_label b)), [Ran c (b_label b)])
      | Returns \<Rightarrow>
          (case user_run c m of
             (Inl e, evs) \<Rightarrow> (Inl e, Ran c (b_label b) # evs)
           | (Inr u, evs) \<Rightarrow> (body_result b', Ran c (b_label b) # evs @ [Ran c (b_label b')])))"
| "user_run c (SetUpW mt test_names m) = user_run c m"
| "user_run c (TearDownW mt m) = user_run c m"
| "user_run c (TestW mt n m) = user_run c m"

fun has_wrapper :: "meth \<Rightarrow> bool" where
  "has_wrapper (Orig b) = False"
| "has_wrapper (Calls b m b') = has_wrapper m"
| "has_wrapper (SetUpW mt test_names m) = False"
| "has_wrapper (TearDownW mt m) = True"
| "has_wrapper (TestW mt n m) = False"

fun td_pre :: "cname \<Rightarrow> meth \<Rightarrow> event list" where
  "td_pre c (Orig b) = [Ran c (b_label b)]"
| "td_pre c (Calls b m b') =
     (if has_wrapper m then Ran c (b_label b) # td_pre c m
      else Ran c (b_label b) # td_pre c m @ [Ran c (b_label b')])"
| "td_pre c (SetUpW mt test_names m) = []"
| "td_pre c (TearDownW mt m) = td_pre c m"
| "td_pre c (TestW mt n m) = []"

fun td_post :: "cname \<Rightarrow> meth \<Rightarrow> event list" where
  "td_post c (Orig b) = []"
| "td_post c (Calls b m b') = (if has_wrapper m then td_post c m @ [Ran c (b_label b')] else [])"
| "td_post c (SetUpW mt test_names m) = []"
| "td_post c (TearDownW mt m) = td_post c m"
| "td_post c (TestW mt n m) = []"

fun continues_after_wrapped :: "meth \<Rightarrow> bool" where
  "continues_after_wrapped (Orig b) = False"
| "continues_after_wrapped (Calls b m b') = has_wrapper m"
| "continues_after_wrapped (SetUpW mt test_names m) = False"
| "continues_after_wrapped (TearDownW mt m) = continues_after_wrapped m"
| "continues_after_wrapped (TestW mt n m) = False"

text \<open>
  The classes the metaclass produces from such methods: the wrapper of the class is
  outermost on \<open>setUp\<close>, on \<open>tearDown\<close> and on every visible test method
  (\<open>chained\<close>), over methods that were chains before (\<open>chain_formed\<close>).
\<close>

definition chain_formed :: "pyclass \<Rightarrow> bool" where
  "chain_formed cls =
     ((case getattr cls ''setUp'' of Some m \<Rightarrow> chain_setUp m | None \<Rightarrow> False) \<and>
      (case getattr cls ''tearDown'' of Some m \<Rightarrow> chain_tearDown m | None \<Rightarrow> False) \<and>
      list_all (\<lambda>t. case getattr cls t of Some m \<Rightarrow> chain_test t m | None \<Rightarrow> False)
        (getTestCaseNames cls))"

definition chained :: "pyclass \<Rightarrow> bool" where
  "chained cls =
     ((case getattr cls ''setUp'' of
         Some (SetUpW mt ns m) \<Rightarrow> ns = set (getTestCaseNames cls) \<and> chain_setUp m
       | _ \<Rightarrow> False) \<and>
      (case getattr cls ''tearDown'' of
         Some (TearDownW mt m) \<Rightarrow> chain_tearDown m
       | _ \<Rightarrow> False) \<and>
      list_all (\<lambda>t. case getattr cls t of
                       Some (TestW mt n m) \<Rightarrow> n = t \<and> chain_test t m
                     | _ \<Rightarrow> False)
        (getTestCaseNames cls))"

definition result_at :: "pyclass \<Rightarrow> string \<Rightarrow> result" where
  "result_at cls n =
     (case getattr cls n of Some m \<Rightarrow> fst (user_run (cname cls) m) | None \<Rightarrow> Inl AttributeError)"

definition events_at :: "pyclass \<Rightarrow> string \<Rightarrow> event list" where
  "events_at cls n =
     (case getattr cls n of Some m \<Rightarrow> snd (user_run (cname cls) m) | None \<Rightarrow> [])"

definition td_pre_at :: "pyclass \<Rightarrow> event list" where
  "td_pre_at cls = (case getattr cls ''tearDown'' of Some m \<Rightarrow> td_pre (cname cls) m | None \<Rightarrow> [])"

definition td_post_at :: "pyclass \<Rightarrow> event list" where
  "td_post_at cls =
     (case getattr cls ''tearDown'' of
        Some m \<Rightarrow>
          (case hook_outcome l_tearDownTestCase cls of
             Returns \<Rightarrow> td_post (cname cls) m
           | Raises \<Rightarrow> [])
      | None \<Rightarrow> [])"

definition tearDown_continues :: "pyclass \<Rightarrow> bool" where
  "tearDown_continues cls =
     (case getattr cls ''tearDown'' of Some m \<Rightarrow> continues_after_wrapped m | None \<Rightarrow> False)"

definition test_events :: "pyclass \<Rightarrow> tname \<Rightarrow> event list" where
  "test_events cls t = events_at cls ''setUp'' @ events_at cls t @ events_at cls ''tearDown''"

definition last_test_events :: "pyclass \<Rightarrow> tname \<Rightarrow> event list" where
  "last_test_events cls t =
     events_at cls ''setUp'' @ events_at cls t @ td_pre_at cls @ After (cname cls) # td_post_at cls"

subsection \<open>Traces and suites\<close>

text \<open>
  The three original bodies that one test of a class runs; the events of a trace that
  belong to one class; the tests of one class in a suite, in their order. In a suite,
  the name of a class identifies it.
\<close>

definition triple :: "pyclass \<Rightarrow> tname \<Rightarrow> event list" where
  "triple cls t =
     [Ran (cname cls) (label_at cls ''setUp''), Ran (cname cls) (label_at cls t),
      Ran (cname cls) (label_at cls ''tearDown'')]"

definition events_of :: "cname \<Rightarrow> event list \<Rightarrow> event list" where
  "events_of c tr = filter (\<lambda>e. ev_class e = c) tr"

definition tests_of :: "pyclass \<Rightarrow> (pyclass \<times> tname) list \<Rightarrow> tname list" where
  "tests_of cls suite = map snd (filter (\<lambda>(k, t). k = cls) suite)"

definition names_identify :: "pyclass \<Rightarrow> (pyclass \<times> tname) list \<Rightarrow> bool" where
  "names_identify cls suite = list_all (\<lambda>(k, t). cname k = cname cls \<longrightarrow> k = cls) suite"

subsection \<open>Re-wrapping along an inheritance chain\<close>

text \<open>
  What the classes of a chain install, one after the other, over a method they all
  inherit: each level wraps the method it finds. The last level is the leaf.
\<close>

definition rewrap_setUp :: "(meta \<times> tname set) list \<Rightarrow> meth \<Rightarrow> meth" where
  "rewrap_setUp levels m = fold (\<lambda>(mt, test_names) cls_setUp. SetUpW mt test_names cls_setUp) levels m"

definition rewrap_tearDown :: "meta list \<Rightarrow> meth \<Rightarrow> meth" where
  "rewrap_tearDown levels m = fold (\<lambda>mt cls_tearDown. TearDownW mt cls_tearDown) levels m"

definition rewrap_test :: "tname \<Rightarrow> meta list \<Rightarrow> meth \<Rightarrow> meth" where
  "rewrap_test test_name levels m = fold (\<lambda>mt cls_test. TestW mt test_name cls_test) levels m"

subsection \<open>Example classes\<close>

text \<open>
  \<^verbatim>\<open>TestCase\<close> with the no-op \<open>setUp\<close> and \<open>tearDown\<close> of \<^verbatim>\<open>unittest\<close>; a base \<open>A\<close> that
  declares both hooks and no test; its subclasses \<open>B\<close> (three tests, the second raises),
  \<open>C\<close> (two tests) and \<open>R\<close> (two tests that raise); and \<open>F\<close>, whose two hooks raise.
  \<open>defined\<close> reads the class out of a class definition that succeeded.
\<close>

definition mk_body :: "string \<Rightarrow> string \<Rightarrow> outcome \<Rightarrow> body" where
  "mk_body n l oc =
     \<lparr>b_meta = \<lparr>fn_name = n, fn_doc = Some l, fn_module = ''example_test''\<rparr>,
      b_label = l, b_outcome = oc\<rparr>"

definition TestCase_cls :: pyclass where
  "TestCase_cls =
     \<lparr>own = \<lparr>l_name = ''TestCase'',
              l_dict = [(''setUp'', Orig (mk_body ''setUp'' ''TestCase.setUp'' Returns)),
                        (''tearDown'', Orig (mk_body ''tearDown'' ''TestCase.tearDown'' Returns))],
              l_setUpTestCase = None, l_tearDownTestCase = None\<rparr>,
      ancestors = []\<rparr>"

definition init_state :: state where
  "init_state = \<lparr>tests_to_run = (\<lambda>c. None), trace = []\<rparr>"

definition defined :: "(pyclass \<times> state) option \<Rightarrow> pyclass" where
  "defined r = (case r of Some (cls, s) \<Rightarrow> cls | None \<Rightarrow> TestCase_cls)"

definition ex_A :: pyclass where
  "ex_A = defined (define_class ''A'' TestCase_cls [] (Some Returns) (Some Returns) init_state)"

definition ex_B_decl :: "(string \<times> body) list" where
  "ex_B_decl =
     [(''test1'', mk_body ''test1'' ''B.test1'' Returns),
      (''test2'', mk_body ''test2'' ''B.test2'' Raises),
      (''test3'', mk_body ''test3'' ''B.test3'' Returns)]"

definition ex_B :: pyclass where
  "ex_B = defined (define_class ''B'' ex_A ex_B_decl None None init_state)"


definition ex_R :: pyclass where
  "ex_R = defined (define_class ''R'' ex_A
     [(''testP'', mk_body ''testP'' ''R.testP'' Raises),
      (''testQ'', mk_body ''testQ'' ''R.testQ'' Raises)] None None init_state)"

definition ex_F :: pyclass where
  "ex_F = defined (define_class ''F'' TestCase_cls
     [(''testX'', mk_body ''testX'' ''F.testX'' Returns),
      (''testY'', mk_body ''testY'' ''F.testY'' Returns)] (Some Raises) (Some Raises) init_state)"


text \<open>
  A class statement whose body holds the functions as they run: a function that calls
  the method it overrides holds the method that the base class shows under that name.
  \<open>D\<close> is a subclass of \<open>A\<close> whose \<open>setUp\<close> and \<open>tearDown\<close> call those of \<open>A\<close>, which are
  wrapped, between a first and a second part of their own; its first test raises.
\<close>

definition class_stmt ::
  "cname \<Rightarrow> pyclass \<Rightarrow> (string \<times> meth) list \<Rightarrow> outcome option \<Rightarrow> outcome option \<Rightarrow> pyclass" where
  "class_stmt name base fns hb ha =
     \<lparr>own = \<lparr>l_name = name, l_dict = fns, l_setUpTestCase = hb, l_tearDownTestCase = ha\<rparr>,
      ancestors = mro base\<rparr>"

definition ex_A_setUp :: meth where
  "ex_A_setUp =
     SetUpW (b_meta (mk_body ''setUp'' ''TestCase.setUp'' Returns)) {}
       (Orig (mk_body ''setUp'' ''TestCase.setUp'' Returns))"

definition ex_A_tearDown :: meth where
  "ex_A_tearDown =
     TearDownW (b_meta (mk_body ''tearDown'' ''TestCase.tearDown'' Returns))
       (Orig (mk_body ''tearDown'' ''TestCase.tearDown'' Returns))"

definition ex_D :: pyclass where
  "ex_D = defined (meta_init (class_stmt ''D'' ex_A
     [(''setUp'', Calls (mk_body ''setUp'' ''D.setUp:1'' Returns) ex_A_setUp
                     (mk_body ''setUp'' ''D.setUp:2'' Returns)),
      (''tearDown'', Calls (mk_body ''tearDown'' ''D.tearDown:1'' Returns) ex_A_tearDown
                        (mk_body ''tearDown'' ''D.tearDown:2'' Returns)),
      (''test1'', Orig (mk_body ''test1'' ''D.test1'' Raises)),
      (''test2'', Orig (mk_body ''test2'' ''D.test2'' Returns))] None None) init_state)"

section \<open>Properties\<close>

lemma exec_frame:
  "exec leaf m s = (r, s') \<Longrightarrow> k \<noteq> cname leaf \<Longrightarrow> tests_to_run s' k = tests_to_run s k"
proof (induction m arbitrary: s r s')
  case (Orig b)
  then show ?case by (auto simp: run_body_def split: outcome.splits)
next
  case (Calls b m b')
  then show ?case
    by (fastforce simp: run_body_def split: outcome.splits prod.splits sum.splits)
next
  case (SetUpW mt ns m)
  then show ?case
    by (fastforce simp: setUpTestCase_def split: option.splits outcome.splits)
next
  case (TearDownW mt m)
  then show ?case
    by (fastforce simp: tearDownTestCase_def split: option.splits outcome.splits prod.splits sum.splits if_splits)
next
  case (TestW mt n m)
  then show ?case
    by (fastforce split: option.splits)
qed

lemma exec_trace:
  "exec leaf m s = (r, s') \<Longrightarrow>
     \<exists>evs. trace s' = trace s @ evs \<and> (\<forall>e\<in>set evs. ev_class e = cname leaf)"
proof (induction m arbitrary: s r s')
  case (Orig b)
  then show ?case by (auto simp: run_body_def split: outcome.splits)
next
  case (Calls b m b')
  then show ?case
    by (fastforce simp: run_body_def split: outcome.splits prod.splits sum.splits)
next
  case (SetUpW mt ns m)
  then show ?case
    by (fastforce simp: setUpTestCase_def split: option.splits outcome.splits)
next
  case (TearDownW mt m)
  then show ?case
    by (fastforce simp: tearDownTestCase_def split: option.splits outcome.splits prod.splits sum.splits if_splits)
next
  case (TestW mt n m)
  then show ?case
    by (fastforce split: option.splits)
qed

lemma exec_pure_setUp:
  "pure_setUp m \<Longrightarrow> tests_to_run s (cname leaf) \<noteq> None \<Longrightarrow>
     exec leaf m s = run_body (cname leaf) (orig_of m) s"
  by (induction m) auto

lemma exec_pure_test:
  "pure_test t m \<Longrightarrow> tests_to_run s (cname leaf) = Some S \<Longrightarrow>
     exec leaf (TestW mt t m) s =
       run_body (cname leaf) (orig_of m)
         (s\<lparr>tests_to_run := (tests_to_run s)(cname leaf := Some (S - {t}))\<rparr>)"
  by (induction m arbitrary: s S mt) auto

lemma setUpTestCase_slot:
  "setUpTestCase leaf s = (r, s') \<Longrightarrow> tests_to_run s' = tests_to_run s"
  by (auto simp: setUpTestCase_def split: outcome.splits)

lemma exec_setUp_stack:
  "pure_setUp m \<Longrightarrow>
     exec leaf (SetUpW mt ns m) s = exec leaf (SetUpW mt ns (Orig (orig_of m))) s"
  by (auto simp: exec_pure_setUp setUpTestCase_slot split: option.splits prod.splits sum.splits)

lemma tearDown_once_slot:
  "exec leaf (TearDownW mt (Orig b)) s = (Inr u, s') \<Longrightarrow> tests_to_run s' (cname leaf) \<noteq> Some {}"
  by (auto simp: run_body_def tearDownTestCase_def split: outcome.splits option.splits if_splits)

lemma exec_tearDown_stack:
  "pure_tearDown m \<Longrightarrow>
     exec leaf (TearDownW mt m) s = exec leaf (TearDownW mt (Orig (orig_of m))) s"
proof (induction m arbitrary: mt)
  case (TearDownW mt2 m)
  have ih: "exec leaf (TearDownW mt2 m) s = exec leaf (TearDownW mt2 (Orig (orig_of m))) s"
    using TearDownW by simp
  obtain r s' where rs: "exec leaf (TearDownW mt2 (Orig (orig_of m))) s = (r, s')"
    by (cases "exec leaf (TearDownW mt2 (Orig (orig_of m))) s")
  have same: "exec leaf (TearDownW mt (Orig (orig_of m))) s = (r, s')"
    using rs by simp
  show ?case
  proof (cases r)
    case (Inl e)
    have "exec leaf (TearDownW mt (TearDownW mt2 m)) s = (Inl e, s')"
      using ih rs Inl by (simp del: exec.simps add: exec.simps(4)[of leaf mt "TearDownW mt2 m"])
    then show ?thesis using same Inl by simp
  next
    case (Inr u)
    have ne: "tests_to_run s' (cname leaf) \<noteq> Some {}"
      using tearDown_once_slot rs Inr by blast
    have "exec leaf (TearDownW mt (TearDownW mt2 m)) s = (Inr (), s')"
      using ih rs Inr ne
      by (simp del: exec.simps add: exec.simps(4)[of leaf mt "TearDownW mt2 m"] split: option.splits)
    then show ?thesis using same Inr by simp
  qed
qed auto

lemma instrumented_setUp:
  assumes "instrumented cls"
  obtains mt m where "getattr cls ''setUp'' = Some (SetUpW mt (set (getTestCaseNames cls)) m)"
    and "pure_setUp m"
  using assms unfolding instrumented_def
  by (auto split: option.splits meth.splits)

lemma instrumented_tearDown:
  assumes "instrumented cls"
  obtains mt m where "getattr cls ''tearDown'' = Some (TearDownW mt m)" and "pure_tearDown m"
  using assms unfolding instrumented_def
  by (auto split: option.splits meth.splits)

lemma instrumented_test:
  assumes "instrumented cls" and "t \<in> set (getTestCaseNames cls)"
  obtains mt m where "getattr cls t = Some (TestW mt t m)" and "pure_test t m"
proof -
  have "case getattr cls t of Some (TestW mt n m) \<Rightarrow> n = t \<and> pure_test t m | _ \<Rightarrow> False"
    using assms unfolding instrumented_def by (auto simp: list_all_iff)
  then show ?thesis using that by (auto split: option.splits meth.splits)
qed

lemma run_test_instrumented:
  assumes inst: "instrumented cls" and t: "t \<in> set (getTestCaseNames cls)"
    and hb: "hook_outcome l_setUpTestCase cls = Returns"
    and su: "outcome_at cls ''setUp'' = Returns"
    and td: "outcome_at cls ''tearDown'' = Returns"
    and S0: "S0 = (case tests_to_run s (cname cls) of None \<Rightarrow> set (getTestCaseNames cls) | Some S \<Rightarrow> S)"
  shows "snd (run_test cls t s) =
           s\<lparr>tests_to_run := (tests_to_run s)(cname cls := if S0 - {t} = {} then None else Some (S0 - {t})),
             trace := trace s @ (if tests_to_run s (cname cls) = None then [Before (cname cls)] else [])
                        @ triple cls t @ (if S0 - {t} = {} then [After (cname cls)] else [])\<rparr>"
proof -
  obtain mt1 m1 where g1: "getattr cls ''setUp'' = Some (SetUpW mt1 (set (getTestCaseNames cls)) m1)"
    and p1: "pure_setUp m1" using inst by (rule instrumented_setUp)
  obtain mt2 m2 where g2: "getattr cls ''tearDown'' = Some (TearDownW mt2 m2)"
    and p2: "pure_tearDown m2" using inst by (rule instrumented_tearDown)
  obtain mt3 m3 where g3: "getattr cls t = Some (TestW mt3 t m3)"
    and p3: "pure_test t m3" using inst t by (rule instrumented_test)
  let ?c = "cname cls"
  let ?pre = "if tests_to_run s ?c = None then [Before ?c] else []"
  define s1 where "s1 = s\<lparr>tests_to_run := (tests_to_run s)(?c := Some S0),
                           trace := trace s @ ?pre @ [Ran ?c (label_at cls ''setUp'')]\<rparr>"
  have o1: "b_outcome (orig_of m1) = Returns" using su g1 by (simp add: outcome_at_def)
  have o2: "b_outcome (orig_of m2) = Returns" using td g2 by (simp add: outcome_at_def)
  have l1: "b_label (orig_of m1) = label_at cls ''setUp''" using g1 by (simp add: label_at_def)
  have l2: "b_label (orig_of m2) = label_at cls ''tearDown''" using g2 by (simp add: label_at_def)
  have l3: "b_label (orig_of m3) = label_at cls t" using g3 by (simp add: label_at_def)
  have e1: "exec cls (SetUpW mt1 (set (getTestCaseNames cls)) m1) s = (Inr (), s1)"
  proof (cases "tests_to_run s ?c")
    case None
    then show ?thesis using o1 l1 hb S0
      by (subst exec_setUp_stack[OF p1]) (simp add: s1_def run_body_def setUpTestCase_def)
  next
    case (Some S)
    then have "(tests_to_run s)(?c := Some S0) = tests_to_run s"
      using S0 by (simp add: fun_upd_idem)
    then show ?thesis using Some o1 l1 hb S0
      by (subst exec_setUp_stack[OF p1]) (simp add: s1_def run_body_def)
  qed
  define s2 where "s2 = s1\<lparr>tests_to_run := (tests_to_run s1)(?c := Some (S0 - {t})),
                            trace := trace s1 @ [Ran ?c (label_at cls t)]\<rparr>"
  have s1c: "tests_to_run s1 ?c = Some S0" by (simp add: s1_def)
  have e2: "snd (exec cls (TestW mt3 t m3) s1) = s2"
    unfolding exec_pure_test[OF p3 s1c]
    using l3 by (auto simp: s2_def run_body_def split: outcome.splits)
  define s3 where "s3 = s2\<lparr>tests_to_run := (tests_to_run s2)(?c := if S0 - {t} = {} then None else Some (S0 - {t})),
                            trace := trace s2 @ Ran ?c (label_at cls ''tearDown'') # (if S0 - {t} = {} then [After ?c] else [])\<rparr>"
  have e3: "snd (exec cls (TearDownW mt2 m2) s2) = s3"
    unfolding exec_tearDown_stack[OF p2]
    using o2 l2
    by (auto simp: s3_def s2_def run_body_def tearDownTestCase_def fun_upd_idem_iff split: outcome.splits)
  have "snd (run_test cls t s) = s3"
    using e1 e2 e3 g1 g2 g3
    by (auto simp add: run_test_def split: prod.splits simp del: exec.simps)
  also have "s3 = s\<lparr>tests_to_run := (tests_to_run s)(?c := if S0 - {t} = {} then None else Some (S0 - {t})),
             trace := trace s @ ?pre @ triple cls t @ (if S0 - {t} = {} then [After ?c] else [])\<rparr>"
    by (simp add: s3_def s2_def s1_def triple_def)
  finally show ?thesis .
qed

lemma events_of_append [simp]: "events_of c (xs @ ys) = events_of c xs @ events_of c ys"
  by (simp add: events_of_def)

lemma events_of_simps [simp]:
  "events_of c [] = []"
  "events_of c (Before c # xs) = Before c # events_of c xs"
  "events_of c (After c # xs) = After c # events_of c xs"
  "events_of c (Ran c l # xs) = Ran c l # events_of c xs"
  by (simp_all add: events_of_def)

lemma events_of_triple [simp]: "events_of (cname cls) (triple cls t) = triple cls t"
  by (simp add: triple_def)

lemma events_of_other:
  "\<forall>e\<in>set evs. ev_class e = k \<Longrightarrow> k \<noteq> c \<Longrightarrow> events_of c evs = []"
  by (auto simp: events_of_def filter_empty_conv)

lemma exec_other:
  assumes "exec leaf m s = (r, s')" and "cname leaf \<noteq> c"
  shows "tests_to_run s' c = tests_to_run s c \<and> events_of c (trace s') = events_of c (trace s)"
proof -
  obtain evs where "trace s' = trace s @ evs" and "\<forall>e\<in>set evs. ev_class e = cname leaf"
    using exec_trace[OF assms(1)] by blast
  then show ?thesis
    using exec_frame[OF assms(1), of c] assms(2) events_of_other[of evs "cname leaf" c] by simp
qed

lemma run_test_other:
  assumes "cname leaf \<noteq> c"
  shows "tests_to_run (snd (run_test leaf t s)) c = tests_to_run s c \<and>
         events_of c (trace (snd (run_test leaf t s))) = events_of c (trace s)"
proof (cases "getattr leaf ''setUp''")
  case None
  then show ?thesis by (simp add: run_test_def)
next
  case su: (Some m1)
  show ?thesis
  proof (cases "getattr leaf t")
    case None
    then show ?thesis using su by (simp add: run_test_def)
  next
    case tm: (Some m2)
    show ?thesis
    proof (cases "getattr leaf ''tearDown''")
      case None
      then show ?thesis using su tm by (simp add: run_test_def)
    next
      case td: (Some m3)
      obtain r1 s1 where e1: "exec leaf m1 s = (r1, s1)" by (cases "exec leaf m1 s")
      obtain r2 s2 where e2: "exec leaf m2 s1 = (r2, s2)" by (cases "exec leaf m2 s1")
      obtain r3 s3 where e3: "exec leaf m3 s2 = (r3, s3)" by (cases "exec leaf m3 s2")
      note o1 = exec_other[OF e1 assms] and o2 = exec_other[OF e2 assms] and o3 = exec_other[OF e3 assms]
      show ?thesis
      proof (cases r1)
        case (Inl e)
        then show ?thesis using su tm td e1 o1 by (simp add: run_test_def)
      next
        case (Inr u)
        then show ?thesis using su tm td e1 e2 e3 o1 o2 o3 by (simp add: run_test_def)
      qed
    qed
  qed
qed

lemma snd_run_suite_Cons:
  "snd (run_suite ((k, t) # rest) s) = snd (run_suite rest (snd (run_test k t s)))"
  by (simp split: prod.splits)

lemma run_suite_other:
  "\<forall>(k, t)\<in>set suite. cname k \<noteq> c \<Longrightarrow>
     tests_to_run (snd (run_suite suite s)) c = tests_to_run s c \<and>
     events_of c (trace (snd (run_suite suite s))) = events_of c (trace s)"
proof (induction suite arbitrary: s)
  case Nil
  then show ?case by simp
next
  case (Cons a suite)
  obtain k t where a: "a = (k, t)" by (cases a)
  have kc: "cname k \<noteq> c" using Cons.prems a by simp
  have rest: "\<forall>(k, t)\<in>set suite. cname k \<noteq> c" using Cons.prems by simp
  show ?case
    using Cons.IH[OF rest, of "snd (run_test k t s)"] run_test_other[OF kc, of t s] a
    by (simp add: snd_run_suite_Cons del: run_suite.simps)
qed

lemma run_suite_class:
  assumes inst: "instrumented cls"
    and hb: "hook_outcome l_setUpTestCase cls = Returns"
    and su: "outcome_at cls ''setUp'' = Returns"
    and td: "outcome_at cls ''tearDown'' = Returns"
  shows "names_identify cls suite \<Longrightarrow> distinct (tests_of cls suite) \<Longrightarrow>
     tests_of cls suite \<noteq> [] \<Longrightarrow>
     set (tests_of cls suite) \<subseteq> set (getTestCaseNames cls) \<Longrightarrow>
     (case tests_to_run s (cname cls) of None \<Rightarrow> set (getTestCaseNames cls) | Some S \<Rightarrow> S)
        = set (tests_of cls suite) \<Longrightarrow>
     tests_to_run (snd (run_suite suite s)) (cname cls) = None \<and>
     events_of (cname cls) (trace (snd (run_suite suite s))) =
       events_of (cname cls) (trace s)
         @ (if tests_to_run s (cname cls) = None then [Before (cname cls)] else [])
         @ concat (map (triple cls) (tests_of cls suite)) @ [After (cname cls)]"
proof (induction suite arbitrary: s)
  case Nil
  then show ?case by (simp add: tests_of_def)
next
  case (Cons a suite)
  obtain k t where a: "a = (k, t)" by (cases a)
  let ?c = "cname cls"
  let ?s1 = "snd (run_test k t s)"
  have ni: "names_identify cls suite" using Cons.prems(1) by (simp add: names_identify_def)
  show ?case
  proof (cases "k = cls")
    case False
    then have kc: "cname k \<noteq> ?c" using Cons.prems(1) a by (auto simp: names_identify_def)
    have same: "tests_of cls (a # suite) = tests_of cls suite"
      using False a by (simp add: tests_of_def)
    have fr: "tests_to_run ?s1 ?c = tests_to_run s ?c"
             "events_of ?c (trace ?s1) = events_of ?c (trace s)"
      using run_test_other[OF kc, of t s] by simp_all
    show ?thesis
      using Cons.IH[of ?s1] ni Cons.prems(2-5) same fr a
      by (simp add: snd_run_suite_Cons del: run_suite.simps)
  next
    case True
    have ts: "tests_of cls (a # suite) = t # tests_of cls suite"
      using True a by (simp add: tests_of_def)
    define S0 where "S0 = (case tests_to_run s ?c of None \<Rightarrow> set (getTestCaseNames cls) | Some S \<Rightarrow> S)"
    have S0eq: "S0 = insert t (set (tests_of cls suite))"
      using Cons.prems(5) ts by (simp add: S0_def)
    have tn: "t \<notin> set (tests_of cls suite)" using Cons.prems(2) ts by simp
    have rem: "S0 - {t} = set (tests_of cls suite)" using S0eq tn by auto
    have tin: "t \<in> set (getTestCaseNames cls)" using Cons.prems(4) ts by simp
    have s1: "?s1 = s\<lparr>tests_to_run := (tests_to_run s)(?c := if S0 - {t} = {} then None else Some (S0 - {t})),
             trace := trace s @ (if tests_to_run s ?c = None then [Before ?c] else [])
                        @ triple cls t @ (if S0 - {t} = {} then [After ?c] else [])\<rparr>"
      using run_test_instrumented[OF inst tin hb su td S0_def] True by simp
    have tr1: "events_of ?c (trace ?s1) =
        events_of ?c (trace s) @ (if tests_to_run s ?c = None then [Before ?c] else [])
          @ triple cls t @ (if S0 - {t} = {} then [After ?c] else [])"
      by (simp add: s1)
    show ?thesis
    proof (cases "tests_of cls suite = []")
      case True
      have none: "\<forall>(k, t)\<in>set suite. cname k \<noteq> ?c"
      proof -
        have "\<forall>(k, t)\<in>set suite. k \<noteq> cls"
          using True by (auto simp: tests_of_def filter_empty_conv)
        then show ?thesis using ni by (auto simp: names_identify_def list_all_iff)
      qed
      have e: "S0 - {t} = {}" using rem True by simp
      have st: "tests_to_run ?s1 ?c = None" by (simp add: s1 e)
      show ?thesis
        using run_suite_other[OF none, of ?s1] a ts True tr1 e st
        by (simp add: snd_run_suite_Cons del: run_suite.simps)
    next
      case False
      have ne: "S0 - {t} \<noteq> {}" using rem False by simp
      have st: "tests_to_run ?s1 ?c = Some (set (tests_of cls suite))"
        using False by (simp add: s1 rem)
      have ih: "tests_to_run (snd (run_suite suite ?s1)) ?c = None \<and>
         events_of ?c (trace (snd (run_suite suite ?s1))) =
           events_of ?c (trace ?s1)
             @ (if tests_to_run ?s1 ?c = None then [Before ?c] else [])
             @ concat (map (triple cls) (tests_of cls suite)) @ [After ?c]"
      proof (rule Cons.IH[OF ni])
        show "distinct (tests_of cls suite)" using Cons.prems(2) ts by simp
        show "tests_of cls suite \<noteq> []" using False .
        show "set (tests_of cls suite) \<subseteq> set (getTestCaseNames cls)"
          using Cons.prems(4) ts by simp
        show "(case tests_to_run ?s1 ?c of None \<Rightarrow> set (getTestCaseNames cls) | Some S \<Rightarrow> S)
                = set (tests_of cls suite)"
          using st by simp
      qed
      show ?thesis
        using ih st a ts tr1 ne
        by (simp add: snd_run_suite_Cons del: run_suite.simps)
    qed
  qed
qed

lemma run_suite_trace:
  "\<exists>evs. trace (snd (run_suite suite s)) = trace s @ evs \<and>
         (\<forall>e\<in>set evs. ev_class e \<in> (\<lambda>(k, t). cname k) ` set suite)"
proof (induction suite arbitrary: s)
  case Nil
  then show ?case by simp
next
  case (Cons a suite)
  obtain k t where a: "a = (k, t)" by (cases a)
  have one: "\<exists>evs. trace (snd (run_test k t s)) = trace s @ evs \<and> (\<forall>e\<in>set evs. ev_class e = cname k)"
  proof (cases "getattr k ''setUp''")
    case None
    then show ?thesis by (simp add: run_test_def)
  next
    case su: (Some m1)
    show ?thesis
    proof (cases "getattr k t")
      case None
      then show ?thesis using su by (simp add: run_test_def)
    next
      case tm: (Some m2)
      show ?thesis
      proof (cases "getattr k ''tearDown''")
        case None
        then show ?thesis using su tm by (simp add: run_test_def)
      next
        case td: (Some m3)
        obtain r1 s1 where e1: "exec k m1 s = (r1, s1)" by (cases "exec k m1 s")
        obtain r2 s2 where e2: "exec k m2 s1 = (r2, s2)" by (cases "exec k m2 s1")
        obtain r3 s3 where e3: "exec k m3 s2 = (r3, s3)" by (cases "exec k m3 s2")
        obtain v1 where v1: "trace s1 = trace s @ v1" "\<forall>e\<in>set v1. ev_class e = cname k"
          using exec_trace[OF e1] by blast
        obtain v2 where v2: "trace s2 = trace s1 @ v2" "\<forall>e\<in>set v2. ev_class e = cname k"
          using exec_trace[OF e2] by blast
        obtain v3 where v3: "trace s3 = trace s2 @ v3" "\<forall>e\<in>set v3. ev_class e = cname k"
          using exec_trace[OF e3] by blast
        show ?thesis
        proof (cases r1)
          case (Inl e)
          then show ?thesis using su tm td e1 v1 by (simp add: run_test_def)
        next
          case (Inr u)
          have "trace s3 = trace s @ (v1 @ v2 @ v3)" using v1 v2 v3 by simp
          moreover have "\<forall>e\<in>set (v1 @ v2 @ v3). ev_class e = cname k" using v1 v2 v3 by auto
          moreover have "snd (run_test k t s) = s3" using Inr su tm td e1 e2 e3 by (simp add: run_test_def)
          ultimately show ?thesis by metis
        qed
      qed
    qed
  qed
  then obtain v where v: "trace (snd (run_test k t s)) = trace s @ v" "\<forall>e\<in>set v. ev_class e = cname k"
    by blast
  obtain w where w: "trace (snd (run_suite suite (snd (run_test k t s)))) = trace (snd (run_test k t s)) @ w"
      "\<forall>e\<in>set w. ev_class e \<in> (\<lambda>(k, t). cname k) ` set suite"
    using Cons.IH by blast
  have "trace (snd (run_suite (a # suite) s)) = trace s @ (v @ w)"
    using v w a by (simp add: snd_run_suite_Cons del: run_suite.simps)
  moreover have "\<forall>e\<in>set (v @ w). ev_class e \<in> (\<lambda>(k, t). cname k) ` set (a # suite)"
    using v w a by auto
  ultimately show ?case by blast
qed

lemma events_of_all: "\<forall>e\<in>set evs. ev_class e = c \<Longrightarrow> events_of c evs = evs"
  by (simp add: events_of_def)

lemma tests_of_single: "tests_of cls (map (Pair cls) ts) = ts"
  by (induction ts) (simp_all add: tests_of_def)

lemma names_identify_single: "names_identify cls (map (Pair cls) ts)"
  by (simp add: names_identify_def list_all_iff)



lemma single_class_run:
  assumes inst: "instrumented cls"
    and hb: "hook_outcome l_setUpTestCase cls = Returns"
    and su: "outcome_at cls ''setUp'' = Returns"
    and td: "outcome_at cls ''tearDown'' = Returns"
    and ts: "distinct ts" "set ts = set (getTestCaseNames cls)" "ts \<noteq> []"
    and s: "tests_to_run s (cname cls) = None"
  shows "tests_to_run (snd (run_suite (map (Pair cls) ts) s)) (cname cls) = None \<and>
         trace (snd (run_suite (map (Pair cls) ts) s)) =
           trace s @ Before (cname cls) # concat (map (triple cls) ts) @ [After (cname cls)]"
proof -
  let ?suite = "map (Pair cls) ts" and ?c = "cname cls"
  let ?s' = "snd (run_suite ?suite s)"
  have main: "tests_to_run ?s' ?c = None \<and>
     events_of ?c (trace ?s') = events_of ?c (trace s)
         @ (if tests_to_run s ?c = None then [Before ?c] else [])
         @ concat (map (triple cls) (tests_of cls ?suite)) @ [After ?c]"
    using ts s
    by (intro run_suite_class[OF inst hb su td names_identify_single]) (simp_all add: tests_of_single)
  obtain evs where evs: "trace ?s' = trace s @ evs"
      "\<forall>e\<in>set evs. ev_class e \<in> (\<lambda>(k, t). cname k) ` set ?suite"
    using run_suite_trace by blast
  have "\<forall>e\<in>set evs. ev_class e = ?c" using evs(2) by auto
  then have "events_of ?c evs = evs" by (rule events_of_all)
  then have "evs = Before ?c # concat (map (triple cls) ts) @ [After ?c]"
    using main evs(1) s by (simp add: tests_of_single)
  then show ?thesis using main evs(1) by simp
qed

lemma run_body_call_orig:
  "getattr cls n = Some m \<Longrightarrow> run_body (cname cls) (orig_of m) s = call_orig cls n s"
  by (simp add: run_body_def call_orig_def outcome_at_def label_at_def split: outcome.splits)

lemma exec_test_instrumented:
  assumes "instrumented cls" and "t \<in> set (getTestCaseNames cls)"
  obtains m where "getattr cls t = Some m"
    and "\<And>s. tests_to_run s (cname cls) = None \<Longrightarrow> exec cls m s = (Inl AttributeError, s)"
    and "\<And>s S. tests_to_run s (cname cls) = Some S \<Longrightarrow>
           exec cls m s = call_orig cls t (s\<lparr>tests_to_run := (tests_to_run s)(cname cls := Some (S - {t}))\<rparr>)"
proof -
  obtain mt m where g: "getattr cls t = Some (TestW mt t m)" and p: "pure_test t m"
    using assms by (rule instrumented_test)
  have "orig_of (TestW mt t m) = orig_of m" by simp
  then have "\<And>s. run_body (cname cls) (orig_of m) s = call_orig cls t s"
    using run_body_call_orig[OF g] by simp
  then show ?thesis
    using that[OF g] exec_pure_test[OF p] by simp
qed

text \<open>
  \<^bold>\<open>C9\<close> (a wrapped test needs an initialised set). Calling the test method that an
  instrumented class shows under a test name, while the slot of the class is still
  the sentinel, raises \<^verbatim>\<open>AttributeError\<close> and leaves the state as it was: the original
  test body does not run.
\<close>

theorem test_before_setUp_raises:
  assumes "instrumented cls" and "t \<in> set (getTestCaseNames cls)"
    and "tests_to_run s (cname cls) = None"
  shows "\<exists>m. getattr cls t = Some m \<and> exec cls m s = (Inl AttributeError, s)"
  using exec_test_instrumented[OF assms(1,2)] assms(3) by metis

theorem test_before_setUp_raises_witness:
  "instrumented ex_B \<and> ''test1'' \<in> set (getTestCaseNames ex_B) \<and>
   tests_to_run init_state (cname ex_B) = None \<and>
   (\<exists>m. getattr ex_B ''test1'' = Some m \<and> exec ex_B m init_state = (Inl AttributeError, init_state))"
proof -
  have h1: "instrumented ex_B" by code_simp
  have h2: "''test1'' \<in> set (getTestCaseNames ex_B)" by code_simp
  have h3: "tests_to_run init_state (cname ex_B) = None" by (simp add: init_state_def)
  show ?thesis using test_before_setUp_raises[OF h1 h2 h3] h1 h2 h3 by simp
qed

lemma exec_setUp_instrumented:
  assumes "instrumented cls"
  obtains m where "getattr cls ''setUp'' = Some m"
    and "\<And>s S. tests_to_run s (cname cls) = Some S \<Longrightarrow> exec cls m s = call_orig cls ''setUp'' s"
    and "\<And>s. tests_to_run s (cname cls) = None \<Longrightarrow>
           exec cls m s =
             (case setUpTestCase cls
                     (s\<lparr>tests_to_run := (tests_to_run s)(cname cls := Some (set (getTestCaseNames cls)))\<rparr>) of
                (Inl e, s') \<Rightarrow> (Inl e, s')
              | (Inr u, s') \<Rightarrow> call_orig cls ''setUp'' s')"
proof -
  obtain mt m where g: "getattr cls ''setUp'' = Some (SetUpW mt (set (getTestCaseNames cls)) m)"
    and p: "pure_setUp m" using assms by (rule instrumented_setUp)
  have c: "\<And>s. run_body (cname cls) (orig_of m) s = call_orig cls ''setUp'' s"
    using run_body_call_orig[OF g] by simp
  show ?thesis
  proof (rule that[OF g])
    fix s :: state and S assume "tests_to_run s (cname cls) = Some S"
    then show "exec cls (SetUpW mt (set (getTestCaseNames cls)) m) s = call_orig cls ''setUp'' s"
      by (subst exec_setUp_stack[OF p]) (simp add: c)
  next
    fix s :: state assume "tests_to_run s (cname cls) = None"
    then show "exec cls (SetUpW mt (set (getTestCaseNames cls)) m) s =
             (case setUpTestCase cls
                     (s\<lparr>tests_to_run := (tests_to_run s)(cname cls := Some (set (getTestCaseNames cls)))\<rparr>) of
                (Inl e, s') \<Rightarrow> (Inl e, s')
              | (Inr u, s') \<Rightarrow> call_orig cls ''setUp'' s')"
      by (subst exec_setUp_stack[OF p]) (simp add: c split: prod.splits sum.splits)
  qed
qed

lemma exec_tearDown_instrumented:
  assumes "instrumented cls"
  obtains m where "getattr cls ''tearDown'' = Some m"
    and "\<And>s. exec cls m s =
           (case call_orig cls ''tearDown'' s of
              (Inl e, s') \<Rightarrow> (Inl e, s')
            | (Inr u, s') \<Rightarrow>
                if tests_to_run s' (cname cls) = Some {}
                then tearDownTestCase cls (s'\<lparr>tests_to_run := (tests_to_run s')(cname cls := None)\<rparr>)
                else (Inr (), s'))"
proof -
  obtain mt m where g: "getattr cls ''tearDown'' = Some (TearDownW mt m)"
    and p: "pure_tearDown m" using assms by (rule instrumented_tearDown)
  have c: "\<And>s. run_body (cname cls) (orig_of m) s = call_orig cls ''tearDown'' s"
    using run_body_call_orig[OF g] by simp
  show ?thesis
  proof (rule that[OF g])
    fix s
    show "exec cls (TearDownW mt m) s =
           (case call_orig cls ''tearDown'' s of
              (Inl e, s') \<Rightarrow> (Inl e, s')
            | (Inr u, s') \<Rightarrow>
                if tests_to_run s' (cname cls) = Some {}
                then tearDownTestCase cls (s'\<lparr>tests_to_run := (tests_to_run s')(cname cls := None)\<rparr>)
                else (Inr (), s'))"
      by (subst exec_tearDown_stack[OF p])
         (auto simp: c split: prod.splits sum.splits option.splits)
  qed
qed

text \<open>
  \<^bold>\<open>C5\<close> (a test is consumed before its body runs). The test method of an instrumented
  class removes its own name from the set of the class and then runs the original
  body: the set is \<open>S - {t}\<close> afterwards whether the body returns or raises, and it is
  \<open>S\<close> itself when the name was absent. Hence a complete sequential run fires
  \<open>tearDownTestCase\<close> once, after the last \<open>tearDown\<close> body, whatever the outcomes of
  the test bodies.
\<close>

theorem test_consumed_before_body:
  assumes "instrumented cls" and "t \<in> set (getTestCaseNames cls)"
    and "tests_to_run s (cname cls) = Some S"
  shows "\<exists>m. getattr cls t = Some m \<and>
           exec cls m s =
             (case outcome_at cls t of
                Returns \<Rightarrow> Inr ()
              | Raises \<Rightarrow> Inl (Raised (label_at cls t)),
              s\<lparr>tests_to_run := (tests_to_run s)(cname cls := Some (S - {t})),
                trace := trace s @ [Ran (cname cls) (label_at cls t)]\<rparr>) \<and>
           (t \<notin> S \<longrightarrow> tests_to_run (snd (exec cls m s)) (cname cls) = Some S) \<and>
           (\<forall>ts s0. hook_outcome l_setUpTestCase cls = Returns \<and>
                outcome_at cls ''setUp'' = Returns \<and> outcome_at cls ''tearDown'' = Returns \<and>
                distinct ts \<and> set ts = set (getTestCaseNames cls) \<and>
                tests_to_run s0 (cname cls) = None \<longrightarrow>
                trace (snd (run_suite (map (Pair cls) ts) s0)) =
                  trace s0 @ Before (cname cls) # concat (map (triple cls) ts) @ [After (cname cls)])"
proof -
  obtain m where g: "getattr cls t = Some m"
    and e: "\<And>s S. tests_to_run s (cname cls) = Some S \<Longrightarrow>
           exec cls m s = call_orig cls t (s\<lparr>tests_to_run := (tests_to_run s)(cname cls := Some (S - {t}))\<rparr>)"
    using exec_test_instrumented[OF assms(1,2)] by metis
  have e1: "exec cls m s =
             (case outcome_at cls t of
                Returns \<Rightarrow> Inr ()
              | Raises \<Rightarrow> Inl (Raised (label_at cls t)),
              s\<lparr>tests_to_run := (tests_to_run s)(cname cls := Some (S - {t})),
                trace := trace s @ [Ran (cname cls) (label_at cls t)]\<rparr>)"
    using e[OF assms(3)] by (simp add: call_orig_def)
  have e2: "t \<notin> S \<longrightarrow> tests_to_run (snd (exec cls m s)) (cname cls) = Some S"
    by (simp add: e1)
  have e3: "trace (snd (run_suite (map (Pair cls) ts) s0)) =
                  trace s0 @ Before (cname cls) # concat (map (triple cls) ts) @ [After (cname cls)]"
    if h: "hook_outcome l_setUpTestCase cls = Returns"
      "outcome_at cls ''setUp'' = Returns" "outcome_at cls ''tearDown'' = Returns"
      "distinct ts" "set ts = set (getTestCaseNames cls)"
      "tests_to_run s0 (cname cls) = None" for ts s0
  proof -
    have "ts \<noteq> []" using h(5) assms(2) by auto
    then show ?thesis
      using single_class_run[OF assms(1) h(1,2,3,4,5) _ h(6)] by simp
  qed
  show ?thesis using g e1 e2 e3 by blast
qed

theorem test_consumed_before_body_witness:
  "instrumented ex_R \<and> ''testP'' \<in> set (getTestCaseNames ex_R) \<and>
   outcome_at ex_R ''testP'' = Raises \<and> outcome_at ex_R ''testQ'' = Raises \<and>
   (\<exists>m. getattr ex_R ''testP'' = Some m \<and>
      exec ex_R m (init_state\<lparr>tests_to_run := (tests_to_run init_state)(''R'' := Some {''testP'', ''testQ''})\<rparr>) =
        (Inl (Raised ''R.testP''),
         init_state\<lparr>tests_to_run := (tests_to_run init_state)(''R'' := Some {''testQ''}),
                    trace := [Ran ''R'' ''R.testP'']\<rparr>)) \<and>
   trace (snd (run_suite (map (Pair ex_R) [''testQ'', ''testP'']) init_state)) =
     [Before ''R'',
      Ran ''R'' ''TestCase.setUp'', Ran ''R'' ''R.testQ'', Ran ''R'' ''TestCase.tearDown'',
      Ran ''R'' ''TestCase.setUp'', Ran ''R'' ''R.testP'', Ran ''R'' ''TestCase.tearDown'',
      After ''R'']"
proof -
  let ?s = "init_state\<lparr>tests_to_run := (tests_to_run init_state)(''R'' := Some {''testP'', ''testQ''})\<rparr>"
  have c: "cname ex_R = ''R''" by code_simp
  have h1: "instrumented ex_R" by code_simp
  have h2: "''testP'' \<in> set (getTestCaseNames ex_R)" by code_simp
  have h3: "tests_to_run ?s (cname ex_R) = Some {''testP'', ''testQ''}" by (simp add: c)
  have o: "outcome_at ex_R ''testP'' = Raises" "outcome_at ex_R ''testQ'' = Raises"
    "hook_outcome l_setUpTestCase ex_R = Returns"
    "outcome_at ex_R ''setUp'' = Returns" "outcome_at ex_R ''tearDown'' = Returns"
    by code_simp+
  have l: "label_at ex_R ''testP'' = ''R.testP''" by code_simp
  have n: "set [''testQ'', ''testP''] = set (getTestCaseNames ex_R)" by code_simp
  have t: "triple ex_R ''testP'' = [Ran ''R'' ''TestCase.setUp'', Ran ''R'' ''R.testP'', Ran ''R'' ''TestCase.tearDown'']"
     "triple ex_R ''testQ'' = [Ran ''R'' ''TestCase.setUp'', Ran ''R'' ''R.testQ'', Ran ''R'' ''TestCase.tearDown'']"
    by code_simp+
  have i: "trace init_state = []" "tests_to_run init_state (cname ex_R) = None"
    by (simp_all add: init_state_def)
  have d: "{''testP'', ''testQ''} - {''testP''} = {''testQ''}" by auto
  obtain m where m: "getattr ex_R ''testP'' = Some m"
    "exec ex_R m ?s =
             (case outcome_at ex_R ''testP'' of
                Returns \<Rightarrow> Inr ()
              | Raises \<Rightarrow> Inl (Raised (label_at ex_R ''testP'')),
              ?s\<lparr>tests_to_run := (tests_to_run ?s)(cname ex_R := Some ({''testP'', ''testQ''} - {''testP''})),
                trace := trace ?s @ [Ran (cname ex_R) (label_at ex_R ''testP'')]\<rparr>)"
    "\<forall>ts s0. hook_outcome l_setUpTestCase ex_R = Returns \<and>
                outcome_at ex_R ''setUp'' = Returns \<and> outcome_at ex_R ''tearDown'' = Returns \<and>
                distinct ts \<and> set ts = set (getTestCaseNames ex_R) \<and>
                tests_to_run s0 (cname ex_R) = None \<longrightarrow>
                trace (snd (run_suite (map (Pair ex_R) ts) s0)) =
                  trace s0 @ Before (cname ex_R) # concat (map (triple ex_R) ts) @ [After (cname ex_R)]"
    using test_consumed_before_body[OF h1 h2 h3] by blast
  have run: "trace (snd (run_suite (map (Pair ex_R) [''testQ'', ''testP'']) init_state)) =
      trace init_state @ Before (cname ex_R) # concat (map (triple ex_R) [''testQ'', ''testP'']) @ [After (cname ex_R)]"
    using o(3,4,5) n i(2) by (intro m(3)[rule_format] conjI) simp_all
  have ex: "exec ex_R m ?s = (Inl (Raised ''R.testP''),
         init_state\<lparr>tests_to_run := (tests_to_run init_state)(''R'' := Some {''testQ''}),
                    trace := [Ran ''R'' ''R.testP'']\<rparr>)"
    using m(2) by (simp add: o l c d i)
  show ?thesis using h1 h2 o m(1) ex run by (simp add: c t i)
qed

text \<open>
  \<^bold>\<open>C4\<close> (the wrapped \<open>tearDown\<close>). The \<open>tearDown\<close> of an instrumented class runs the
  original body first, in every case. If the body raises, its exception propagates.
  Otherwise, exactly when the set of the class is initialised and empty, the slot is
  reset to the sentinel and \<open>tearDownTestCase\<close> is called; the reset is in the final
  state whether the hook returns or raises, and a raising hook makes the wrapped
  \<open>tearDown\<close> raise. In any other state the slot is untouched and the hook is not
  called.
\<close>

theorem wrapped_tearDown:
  assumes "instrumented cls"
  shows "\<exists>m. getattr cls ''tearDown'' = Some m \<and>
           exec cls m s =
             (if outcome_at cls ''tearDown'' = Raises
              then (Inl (Raised (label_at cls ''tearDown'')),
                    s\<lparr>trace := trace s @ [Ran (cname cls) (label_at cls ''tearDown'')]\<rparr>)
              else if tests_to_run s (cname cls) = Some {}
              then (case hook_outcome l_tearDownTestCase cls of
                      Returns \<Rightarrow> Inr ()
                    | Raises \<Rightarrow> Inl (Raised ''tearDownTestCase''),
                    s\<lparr>tests_to_run := (tests_to_run s)(cname cls := None),
                      trace := trace s @ [Ran (cname cls) (label_at cls ''tearDown''),
                                          After (cname cls)]\<rparr>)
              else (Inr (), s\<lparr>trace := trace s @ [Ran (cname cls) (label_at cls ''tearDown'')]\<rparr>))"
proof (rule exec_tearDown_instrumented[OF assms])
  fix m
  assume g: "getattr cls ''tearDown'' = Some m"
    and e: "\<And>s. exec cls m s =
           (case call_orig cls ''tearDown'' s of
              (Inl e, s') \<Rightarrow> (Inl e, s')
            | (Inr u, s') \<Rightarrow>
                if tests_to_run s' (cname cls) = Some {}
                then tearDownTestCase cls (s'\<lparr>tests_to_run := (tests_to_run s')(cname cls := None)\<rparr>)
                else (Inr (), s'))"
  show ?thesis
    using g
    by (cases "outcome_at cls ''tearDown''"; cases "hook_outcome l_tearDownTestCase cls")
       (simp_all add: e call_orig_def tearDownTestCase_def)
qed

theorem wrapped_tearDown_witness:
  "instrumented ex_F \<and> hook_outcome l_tearDownTestCase ex_F = Raises \<and>
   (\<exists>m. getattr ex_F ''tearDown'' = Some m \<and>
      exec ex_F m (init_state\<lparr>tests_to_run := (tests_to_run init_state)(''F'' := Some {})\<rparr>) =
        (Inl (Raised ''tearDownTestCase''),
         init_state\<lparr>tests_to_run := (tests_to_run init_state)(''F'' := None),
                    trace := [Ran ''F'' ''TestCase.tearDown'', After ''F'']\<rparr>))"
proof -
  have h1: "instrumented ex_F" by code_simp
  have o: "hook_outcome l_tearDownTestCase ex_F = Raises" "outcome_at ex_F ''tearDown'' = Returns"
    "label_at ex_F ''tearDown'' = ''TestCase.tearDown''" "cname ex_F = ''F''"
    by code_simp+
  have i: "trace init_state = []" by (simp add: init_state_def)
  show ?thesis
    using wrapped_tearDown[OF h1, of "init_state\<lparr>tests_to_run := (tests_to_run init_state)(''F'' := Some {})\<rparr>"] h1
    by (simp add: o i)
qed

text \<open>
  \<^bold>\<open>C2\<close>, as the code has it. The wrapped \<open>setUp\<close> assigns the set of test names to the
  slot before it calls \<open>setUpTestCase\<close>. When the hook raises, the exception propagates
  and the original \<open>setUp\<close> body does not run, but the slot already holds the full set
  of test names of the class: the wrapped \<open>setUp\<close> of the next test runs only the
  original body and does not call the hook again.
\<close>

theorem before_hook_failure:
  assumes "instrumented cls" and "hook_outcome l_setUpTestCase cls = Raises"
    and "tests_to_run s (cname cls) = None"
  shows "\<exists>m s1. getattr cls ''setUp'' = Some m \<and>
           s1 = s\<lparr>tests_to_run := (tests_to_run s)(cname cls := Some (set (getTestCaseNames cls))),
                  trace := trace s @ [Before (cname cls)]\<rparr> \<and>
           exec cls m s = (Inl (Raised ''setUpTestCase''), s1) \<and>
           snd (exec cls m s1) = s1\<lparr>trace := trace s1 @ [Ran (cname cls) (label_at cls ''setUp'')]\<rparr>"
proof (rule exec_setUp_instrumented[OF assms(1)])
  fix m
  assume g: "getattr cls ''setUp'' = Some m"
    and e1: "\<And>s S. tests_to_run s (cname cls) = Some S \<Longrightarrow> exec cls m s = call_orig cls ''setUp'' s"
    and e2: "\<And>s. tests_to_run s (cname cls) = None \<Longrightarrow>
           exec cls m s =
             (case setUpTestCase cls
                     (s\<lparr>tests_to_run := (tests_to_run s)(cname cls := Some (set (getTestCaseNames cls)))\<rparr>) of
                (Inl e, s') \<Rightarrow> (Inl e, s')
              | (Inr u, s') \<Rightarrow> call_orig cls ''setUp'' s')"
  define s1 where "s1 = s\<lparr>tests_to_run := (tests_to_run s)(cname cls := Some (set (getTestCaseNames cls))),
                  trace := trace s @ [Before (cname cls)]\<rparr>"
  have a: "exec cls m s = (Inl (Raised ''setUpTestCase''), s1)"
    using e2[OF assms(3)] assms(2) by (simp add: setUpTestCase_def s1_def)
  have "tests_to_run s1 (cname cls) = Some (set (getTestCaseNames cls))" by (simp add: s1_def)
  then have b: "snd (exec cls m s1) = s1\<lparr>trace := trace s1 @ [Ran (cname cls) (label_at cls ''setUp'')]\<rparr>"
    using e1 by (simp add: call_orig_def)
  have "getattr cls ''setUp'' = Some m \<and>
           s1 = s\<lparr>tests_to_run := (tests_to_run s)(cname cls := Some (set (getTestCaseNames cls))),
                  trace := trace s @ [Before (cname cls)]\<rparr> \<and>
           exec cls m s = (Inl (Raised ''setUpTestCase''), s1) \<and>
           snd (exec cls m s1) = s1\<lparr>trace := trace s1 @ [Ran (cname cls) (label_at cls ''setUp'')]\<rparr>"
    by (intro conjI g a b s1_def)
  then show ?thesis by (intro exI)
qed

theorem before_hook_failure_witness:
  "instrumented ex_F \<and> hook_outcome l_setUpTestCase ex_F = Raises \<and>
   tests_to_run init_state (cname ex_F) = None \<and>
   (\<exists>m. getattr ex_F ''setUp'' = Some m \<and>
      exec ex_F m init_state =
        (Inl (Raised ''setUpTestCase''),
         init_state\<lparr>tests_to_run := (tests_to_run init_state)(''F'' := Some {''testX'', ''testY''}),
                    trace := [Before ''F'']\<rparr>))"
proof -
  have h1: "instrumented ex_F" by code_simp
  have h2: "hook_outcome l_setUpTestCase ex_F = Raises" by code_simp
  have h3: "tests_to_run init_state (cname ex_F) = None" by (simp add: init_state_def)
  have c: "cname ex_F = ''F''" by code_simp
  have n: "set (getTestCaseNames ex_F) = {''testX'', ''testY''}" by code_simp
  have i: "trace init_state = []" by (simp add: init_state_def)
  obtain m s1 where m: "getattr ex_F ''setUp'' = Some m"
    "s1 = init_state\<lparr>tests_to_run := (tests_to_run init_state)(cname ex_F := Some (set (getTestCaseNames ex_F))),
                  trace := trace init_state @ [Before (cname ex_F)]\<rparr>"
    "exec ex_F m init_state = (Inl (Raised ''setUpTestCase''), s1)"
    using before_hook_failure[OF h1 h2 h3] by blast
  have "exec ex_F m init_state =
        (Inl (Raised ''setUpTestCase''),
         init_state\<lparr>tests_to_run := (tests_to_run init_state)(''F'' := Some {''testX'', ''testY''}),
                    trace := [Before ''F'']\<rparr>)"
    using m(2,3) by (simp add: c n i)
  then show ?thesis using h1 h2 h3 m(1) by simp
qed

theorem before_hook_failure_counterexample:
  "fst (run_test ex_F ''testX'' init_state) = SetUpFailed (Raised ''setUpTestCase'') \<and>
   tests_to_run (snd (run_test ex_F ''testX'' init_state)) ''F'' = Some {''testX'', ''testY''} \<and>
   tests_to_run (snd (run_test ex_F ''testX'' init_state)) ''F'' \<noteq> None \<and>
   trace (snd (run_suite [(ex_F, ''testX''), (ex_F, ''testY'')] init_state)) =
     [Before ''F'', Ran ''F'' ''TestCase.setUp'', Ran ''F'' ''F.testY'', Ran ''F'' ''TestCase.tearDown'']"
  by code_simp

text \<open>
  \<^bold>\<open>C8\<close> (a fresh run starts over). After a complete sequential run of an instrumented
  class the slot is the sentinel again, and the wrapped \<open>setUp\<close> of the first test of a
  new run installs the set of test names of the class and calls \<open>setUpTestCase\<close> again,
  before the original \<open>setUp\<close> body.
\<close>

theorem fresh_run_fires_before_again:
  assumes "instrumented cls"
    and "hook_outcome l_setUpTestCase cls = Returns"
    and "outcome_at cls ''setUp'' = Returns"
    and "outcome_at cls ''tearDown'' = Returns"
    and "distinct ts" and "set ts = set (getTestCaseNames cls)" and "ts \<noteq> []"
    and "tests_to_run s (cname cls) = None"
    and "s' = snd (run_suite (map (Pair cls) ts) s)"
  shows "tests_to_run s' (cname cls) = None \<and>
         (\<exists>m. getattr cls ''setUp'' = Some m \<and>
            exec cls m s' =
              (Inr (),
               s'\<lparr>tests_to_run := (tests_to_run s')(cname cls := Some (set (getTestCaseNames cls))),
                  trace := trace s' @ [Before (cname cls), Ran (cname cls) (label_at cls ''setUp'')]\<rparr>))"
proof (rule exec_setUp_instrumented[OF assms(1)])
  fix m
  assume g: "getattr cls ''setUp'' = Some m"
    and e2: "\<And>s. tests_to_run s (cname cls) = None \<Longrightarrow>
           exec cls m s =
             (case setUpTestCase cls
                     (s\<lparr>tests_to_run := (tests_to_run s)(cname cls := Some (set (getTestCaseNames cls)))\<rparr>) of
                (Inl e, s') \<Rightarrow> (Inl e, s')
              | (Inr u, s') \<Rightarrow> call_orig cls ''setUp'' s')"
  have n: "tests_to_run s' (cname cls) = None"
    using single_class_run[OF assms(1-8)] assms(9) by simp
  have "exec cls m s' =
              (Inr (),
               s'\<lparr>tests_to_run := (tests_to_run s')(cname cls := Some (set (getTestCaseNames cls))),
                  trace := trace s' @ [Before (cname cls), Ran (cname cls) (label_at cls ''setUp'')]\<rparr>)"
    using e2[OF n] assms(2,3) by (simp add: setUpTestCase_def call_orig_def)
  then show ?thesis using n g by simp
qed

theorem fresh_run_fires_before_again_witness:
  "instrumented ex_B \<and> tests_to_run init_state (cname ex_B) = None \<and>
   trace (snd (run_suite (map (Pair ex_B) [''test1'', ''test2'', ''test3''] @
                          map (Pair ex_B) [''test3'']) init_state)) =
     [Before ''B'',
      Ran ''B'' ''TestCase.setUp'', Ran ''B'' ''B.test1'', Ran ''B'' ''TestCase.tearDown'',
      Ran ''B'' ''TestCase.setUp'', Ran ''B'' ''B.test2'', Ran ''B'' ''TestCase.tearDown'',
      Ran ''B'' ''TestCase.setUp'', Ran ''B'' ''B.test3'', Ran ''B'' ''TestCase.tearDown'',
      After ''B'',
      Before ''B'',
      Ran ''B'' ''TestCase.setUp'', Ran ''B'' ''B.test3'', Ran ''B'' ''TestCase.tearDown''] \<and>
   (\<exists>m. getattr ex_B ''setUp'' = Some m \<and>
      tests_to_run (snd (exec ex_B m (snd (run_suite (map (Pair ex_B) [''test1'', ''test2'', ''test3'']) init_state))))
        ''B'' = Some {''test1'', ''test2'', ''test3''})"
proof -
  have h1: "instrumented ex_B" by code_simp
  have h2: "hook_outcome l_setUpTestCase ex_B = Returns" by code_simp
  have h3: "outcome_at ex_B ''setUp'' = Returns" by code_simp
  have h4: "outcome_at ex_B ''tearDown'' = Returns" by code_simp
  have h5: "distinct [''test1'', ''test2'', ''test3'']" by simp
  have h6: "set [''test1'', ''test2'', ''test3''] = set (getTestCaseNames ex_B)" by code_simp
  have h7: "[''test1'', ''test2'', ''test3''] \<noteq> []" by simp
  have h8: "tests_to_run init_state (cname ex_B) = None" by (simp add: init_state_def)
  have c: "cname ex_B = ''B''" by code_simp
  have n: "set (getTestCaseNames ex_B) = {''test1'', ''test2'', ''test3''}" by code_simp
  have tr: "trace (snd (run_suite (map (Pair ex_B) [''test1'', ''test2'', ''test3''] @
                          map (Pair ex_B) [''test3'']) init_state)) =
     [Before ''B'',
      Ran ''B'' ''TestCase.setUp'', Ran ''B'' ''B.test1'', Ran ''B'' ''TestCase.tearDown'',
      Ran ''B'' ''TestCase.setUp'', Ran ''B'' ''B.test2'', Ran ''B'' ''TestCase.tearDown'',
      Ran ''B'' ''TestCase.setUp'', Ran ''B'' ''B.test3'', Ran ''B'' ''TestCase.tearDown'',
      After ''B'',
      Before ''B'',
      Ran ''B'' ''TestCase.setUp'', Ran ''B'' ''B.test3'', Ran ''B'' ''TestCase.tearDown'']"
    by code_simp
  define sf where "sf = snd (run_suite (map (Pair ex_B) [''test1'', ''test2'', ''test3'']) init_state)"
  obtain m where m: "getattr ex_B ''setUp'' = Some m"
     "exec ex_B m sf =
        (Inr (),
         sf\<lparr>tests_to_run := (tests_to_run sf)(cname ex_B := Some (set (getTestCaseNames ex_B))),
            trace := trace sf @ [Before (cname ex_B), Ran (cname ex_B) (label_at ex_B ''setUp'')]\<rparr>)"
    using fresh_run_fires_before_again[OF h1 h2 h3 h4 h5 h6 h7 h8 sf_def] by blast
  have "tests_to_run (snd (exec ex_B m sf)) ''B'' = Some {''test1'', ''test2'', ''test3''}"
    by (simp add: m(2) c n)
  then have "tests_to_run (snd (exec ex_B m (snd (run_suite (map (Pair ex_B) [''test1'', ''test2'', ''test3'']) init_state))))
        ''B'' = Some {''test1'', ''test2'', ''test3''}"
    by (simp only: sf_def)
  then show ?thesis using h1 h8 tr m(1) by blast
qed

lemma rewrap_setUp_snoc:
  "rewrap_setUp (levels @ [(mt, ns)]) m = SetUpW mt ns (rewrap_setUp levels m)"
  by (simp add: rewrap_setUp_def)

lemma rewrap_tearDown_snoc:
  "rewrap_tearDown (levels @ [mt]) m = TearDownW mt (rewrap_tearDown levels m)"
  by (simp add: rewrap_tearDown_def)

lemma rewrap_test_snoc:
  "rewrap_test t (levels @ [mt]) m = TestW mt t (rewrap_test t levels m)"
  by (simp add: rewrap_test_def)

lemma rewrap_Nil:
  "rewrap_setUp [] m = m" "rewrap_tearDown [] m = m" "rewrap_test t [] m = m"
  by (simp_all add: rewrap_setUp_def rewrap_tearDown_def rewrap_test_def)

lemma rewrap_single:
  "rewrap_tearDown [mt] m = TearDownW mt m" "rewrap_test t [mt] m = TestW mt t m"
  by (simp_all add: rewrap_tearDown_def rewrap_test_def)

lemma exec_rewrap_setUp_skip:
  "tests_to_run s (cname leaf) \<noteq> None \<Longrightarrow> exec leaf (rewrap_setUp levels m) s = exec leaf m s"
proof (induction levels rule: rev_induct)
  case Nil
  then show ?case by (simp add: rewrap_Nil)
next
  case (snoc x xs)
  obtain mt ns where x: "x = (mt, ns)" by (cases x)
  show ?case using snoc by (auto simp: x rewrap_setUp_snoc)
qed

lemma exec_rewrap_setUp:
  assumes "levels \<noteq> []"
  shows "exec leaf (rewrap_setUp levels m) s =
         exec leaf (SetUpW (fst (last levels)) (snd (last levels)) m) s"
proof -
  obtain xs mt ns where l: "levels = xs @ [(mt, ns)]"
    using assms by (metis rev_exhaust surj_pair)
  have skip: "\<And>s'. tests_to_run s' (cname leaf) \<noteq> None \<Longrightarrow> exec leaf (rewrap_setUp xs m) s' = exec leaf m s'"
    by (rule exec_rewrap_setUp_skip)
  show ?thesis
  proof (cases "tests_to_run s (cname leaf)")
    case None
    obtain r s' where h: "setUpTestCase leaf (s\<lparr>tests_to_run := (tests_to_run s)(cname leaf := Some ns)\<rparr>) = (r, s')"
      by (cases "setUpTestCase leaf (s\<lparr>tests_to_run := (tests_to_run s)(cname leaf := Some ns)\<rparr>)")
    have "tests_to_run s' (cname leaf) \<noteq> None"
      using setUpTestCase_slot[OF h] by simp
    then show ?thesis using None h skip by (simp add: l rewrap_setUp_snoc split: sum.splits)
  next
    case (Some S)
    then show ?thesis using skip[of s] by (simp add: l rewrap_setUp_snoc)
  qed
qed

lemma tearDown_wrapper_slot:
  "exec leaf (TearDownW mt m) s = (Inr u, s') \<Longrightarrow> tests_to_run s' (cname leaf) \<noteq> Some {}"
  by (auto simp: tearDownTestCase_def split: prod.splits sum.splits option.splits if_splits outcome.splits)

lemma exec_TearDownW_meta:
  "exec leaf (TearDownW mt m) s = exec leaf (TearDownW mt' m) s"
  by simp

lemma exec_TearDownW_twice:
  assumes "exec leaf y s = exec leaf (TearDownW mt' m) s"
  shows "exec leaf (TearDownW mt y) s = exec leaf (TearDownW mt' m) s"
proof -
  obtain r s' where rs: "exec leaf (TearDownW mt' m) s = (r, s')"
    by (cases "exec leaf (TearDownW mt' m) s")
  have y: "exec leaf y s = (r, s')" using assms rs by simp
  show ?thesis
  proof (cases r)
    case (Inl e)
    have "exec leaf (TearDownW mt y) s = (Inl e, s')"
      using y Inl by (simp add: exec.simps(4)[of leaf mt y] del: exec.simps)
    then show ?thesis using rs Inl by simp
  next
    case (Inr u)
    have ne: "tests_to_run s' (cname leaf) \<noteq> Some {}"
      using tearDown_wrapper_slot rs Inr by blast
    have "exec leaf (TearDownW mt y) s = (Inr (), s')"
      using y Inr ne by (simp add: exec.simps(4)[of leaf mt y] del: exec.simps split: option.splits)
    then show ?thesis using rs Inr by simp
  qed
qed

lemma exec_rewrap_tearDown:
  "levels \<noteq> [] \<Longrightarrow>
     exec leaf (rewrap_tearDown levels m) s = exec leaf (TearDownW (last levels) m) s"
proof (induction levels rule: rev_induct)
  case Nil
  then show ?case by simp
next
  case (snoc mt xs)
  show ?case
  proof (cases "xs = []")
    case True
    then show ?thesis by (simp add: rewrap_single)
  next
    case False
    have "exec leaf (rewrap_tearDown xs m) s = exec leaf (TearDownW (last xs) m) s"
      using snoc.IH False by simp
    then have "exec leaf (TearDownW mt (rewrap_tearDown xs m)) s = exec leaf (TearDownW (last xs) m) s"
      by (rule exec_TearDownW_twice)
    then show ?thesis
      using exec_TearDownW_meta[of leaf "last xs" m s mt]
      by (simp add: rewrap_tearDown_snoc del: exec.simps)
  qed
qed

lemma exec_rewrap_test_Some:
  assumes "levels \<noteq> []"
  shows "tests_to_run s (cname leaf) = Some S \<Longrightarrow>
     exec leaf (rewrap_test t levels m) s =
       exec leaf (TestW mt0 t m) s"
  using assms
proof (induction levels arbitrary: s S rule: rev_induct)
  case Nil
  then show ?case by simp
next
  case (snoc mt xs)
  show ?case
  proof (cases "xs = []")
    case True
    then show ?thesis by (simp add: rewrap_single)
  next
    case False
    let ?s1 = "s\<lparr>tests_to_run := (tests_to_run s)(cname leaf := Some (S - {t}))\<rparr>"
    have s1: "tests_to_run ?s1 (cname leaf) = Some (S - {t})" by simp
    have same: "?s1\<lparr>tests_to_run := (tests_to_run ?s1)(cname leaf := Some (S - {t} - {t}))\<rparr> = ?s1"
      by simp
    have "exec leaf (rewrap_test t (xs @ [mt]) m) s = exec leaf (rewrap_test t xs m) ?s1"
      using snoc.prems(1) by (simp add: rewrap_test_snoc)
    also have "\<dots> = exec leaf (TestW mt0 t m) ?s1"
      using snoc.IH[OF s1 False] .
    also have "\<dots> = exec leaf m ?s1"
      using s1 same by (simp del: fun_upd_apply)
    also have "\<dots> = exec leaf (TestW mt0 t m) s"
      using snoc.prems(1) by simp
    finally show ?thesis .
  qed
qed

lemma exec_rewrap_test:
  assumes "levels \<noteq> []"
  shows "exec leaf (rewrap_test t levels m) s = exec leaf (TestW (last levels) t m) s"
proof (cases "tests_to_run s (cname leaf)")
  case None
  obtain xs mt where "levels = xs @ [mt]" using assms by (metis rev_exhaust)
  then show ?thesis using None by (simp add: rewrap_test_snoc)
next
  case (Some S)
  then show ?thesis using exec_rewrap_test_Some[OF assms Some] by blast
qed

text \<open>
  \<^bold>\<open>C6\<close> (re-wrapping is idempotent). When the classes of an inheritance chain wrap an
  inherited method one after the other (\<open>levels\<close>, the leaf last, each with its own
  \<^verbatim>\<open>test_names\<close>), calling the result on an instance behaves as calling the method
  wrapped once, by the leaf alone: the same result, the same trace and the same slot,
  for \<open>setUp\<close>, for \<open>tearDown\<close> and for a test method, in every state.
\<close>

theorem rewrap_idempotent:
  assumes "levels \<noteq> []" and "mts \<noteq> []"
  shows "exec leaf (rewrap_setUp levels m) s =
           exec leaf (SetUpW (fst (last levels)) (snd (last levels)) m) s \<and>
         exec leaf (rewrap_tearDown mts m) s = exec leaf (TearDownW (last mts) m) s \<and>
         exec leaf (rewrap_test t mts m) s = exec leaf (TestW (last mts) t m) s"
  using exec_rewrap_setUp[OF assms(1)] exec_rewrap_tearDown[OF assms(2)] exec_rewrap_test[OF assms(2)]
  by blast

theorem rewrap_idempotent_witness:
  "[(def_meta ''setUp'', {}), (def_meta ''setUp'', {''test1''})] \<noteq> [] \<and>
   [def_meta ''tearDown'', def_meta ''tearDown'', def_meta ''tearDown''] \<noteq> [] \<and>
   exec ex_B (rewrap_setUp [(def_meta ''setUp'', {}), (def_meta ''setUp'', {''test1''})]
                (Orig (mk_body ''setUp'' ''X.setUp'' Returns))) init_state =
     exec ex_B (SetUpW (def_meta ''setUp'') {''test1''}
                (Orig (mk_body ''setUp'' ''X.setUp'' Returns))) init_state \<and>
   exec ex_B (rewrap_tearDown [def_meta ''tearDown'', def_meta ''tearDown'', def_meta ''tearDown'']
                (Orig (mk_body ''tearDown'' ''X.tearDown'' Returns)))
        (init_state\<lparr>tests_to_run := (tests_to_run init_state)(''B'' := Some {})\<rparr>) =
     exec ex_B (TearDownW (def_meta ''tearDown'') (Orig (mk_body ''tearDown'' ''X.tearDown'' Returns)))
        (init_state\<lparr>tests_to_run := (tests_to_run init_state)(''B'' := Some {})\<rparr>) \<and>
   trace (snd (exec ex_B (rewrap_tearDown [def_meta ''tearDown'', def_meta ''tearDown'', def_meta ''tearDown'']
                (Orig (mk_body ''tearDown'' ''X.tearDown'' Returns)))
        (init_state\<lparr>tests_to_run := (tests_to_run init_state)(''B'' := Some {})\<rparr>))) =
     [Ran ''B'' ''X.tearDown'', After ''B'']"
proof -
  have a: "[(def_meta ''setUp'', {}), (def_meta ''setUp'', {''test1''})] \<noteq> ([] :: (meta \<times> tname set) list)"
    by simp
  have b: "[def_meta ''tearDown'', def_meta ''tearDown'', def_meta ''tearDown''] \<noteq> []"
    by simp
  have t: "trace (snd (exec ex_B (rewrap_tearDown [def_meta ''tearDown'', def_meta ''tearDown'', def_meta ''tearDown'']
                (Orig (mk_body ''tearDown'' ''X.tearDown'' Returns)))
        (init_state\<lparr>tests_to_run := (tests_to_run init_state)(''B'' := Some {})\<rparr>))) =
     [Ran ''B'' ''X.tearDown'', After ''B'']"
    by code_simp
  show ?thesis
    using rewrap_idempotent[OF a b, where leaf = ex_B
          and m = "Orig (mk_body ''setUp'' ''X.setUp'' Returns)" and s = init_state]
      rewrap_idempotent[OF a b, where leaf = ex_B
          and m = "Orig (mk_body ''tearDown'' ''X.tearDown'' Returns)"
          and s = "init_state\<lparr>tests_to_run := (tests_to_run init_state)(''B'' := Some {})\<rparr>"] t
    by (simp del: exec.simps)
qed





lemma getattr_own:
  "getattr cls k =
     (case map_of (l_dict (own cls)) k of
        Some v \<Rightarrow> Some v
      | None \<Rightarrow> lookup_mro (\<lambda>l. map_of (l_dict l) k) (ancestors cls))"
  by (simp add: getattr_def mro_def)

lemma getattr_setattr:
  "getattr (setattr cls n v) k = (if k = n then Some v else getattr cls k)"
  by (simp add: getattr_own setattr_def update_conv' split: option.splits)

lemma cname_setattr [simp]: "cname (setattr cls n v) = cname cls"
  by (simp add: cname_def setattr_def)

lemma set_dir: "set (dir cls) = (\<Union>l\<in>set (mro cls). fst ` set (l_dict l))"
  by (auto simp: dir_def)

lemma set_dir_setattr: "set (dir (setattr cls n v)) = insert n (set (dir cls))"
  by (auto simp: set_dir mro_def setattr_def dom_update)

lemma set_names: "set (getTestCaseNames cls) = {n \<in> set (dir cls). isTestMethod n}"
  by (auto simp: getTestCaseNames_def)

lemma distinct_names: "distinct (getTestCaseNames cls)"
  by (simp add: getTestCaseNames_def dir_def)

lemma meta_of_set_meta [simp]: "meta_of (set_meta mt m) = mt"
  by (cases m) simp_all

lemma SetMethod_Some:
  "SetMethod cls n r = Some cls' \<longleftrightarrow>
     (\<exists>original. getattr cls n = Some original \<and> cls' = setattr cls n (set_meta (meta_of original) r))"
  by (auto simp: SetMethod_def split: option.splits)

lemma SetMethod_meta:
  "SetMethod cls n r = Some cls' \<Longrightarrow>
     map_option meta_of (getattr cls' k) = map_option meta_of (getattr cls k)"
  by (auto simp: SetMethod_Some getattr_setattr)

lemma SetTestMethodAttrs_meta:
  "SetTestMethodAttrs cls ns = Some cls' \<Longrightarrow>
     map_option meta_of (getattr cls' k) = map_option meta_of (getattr cls k)"
proof (induction ns arbitrary: cls)
  case Nil
  then show ?case by simp
next
  case (Cons t ns)
  then obtain m0 c1 where g: "getattr cls t = Some m0"
    and c1: "SetMethod cls t (TestW (def_meta ''test'') t m0) = Some c1"
    and r: "SetTestMethodAttrs c1 ns = Some cls'"
    by (auto split: option.splits)
  show ?case using Cons.IH[OF r] SetMethod_meta[OF c1] by simp
qed

lemma SetTestMethodAttrs_getattr:
  "distinct ns \<Longrightarrow> SetTestMethodAttrs cls ns = Some cls' \<Longrightarrow>
     getattr cls' k =
       (if k \<in> set ns then map_option (\<lambda>m0. TestW (meta_of m0) k m0) (getattr cls k)
        else getattr cls k) \<and>
     cname cls' = cname cls \<and> set (dir cls') = set (dir cls) \<union> set ns"
proof (induction ns arbitrary: cls)
  case Nil
  then show ?case by simp
next
  case (Cons t ns)
  from Cons.prems(2) obtain m0 c1 where g: "getattr cls t = Some m0"
    and c1: "SetMethod cls t (TestW (def_meta ''test'') t m0) = Some c1"
    and r: "SetTestMethodAttrs c1 ns = Some cls'"
    by (auto split: option.splits)
  have c1eq: "c1 = setattr cls t (TestW (meta_of m0) t m0)"
    using c1 g by (simp add: SetMethod_Some)
  have d: "distinct ns" "t \<notin> set ns" using Cons.prems(1) by simp_all
  note ih = Cons.IH[OF d(1) r]
  show ?case
    using ih d(2) g
    by (auto simp: c1eq getattr_setattr set_dir_setattr)
qed

lemma SetTestMethodAttrs_total:
  "\<forall>t\<in>set ns. getattr cls t \<noteq> None \<Longrightarrow> \<exists>cls'. SetTestMethodAttrs cls ns = Some cls'"
proof (induction ns arbitrary: cls)
  case Nil
  then show ?case by simp
next
  case (Cons t ns)
  then obtain m0 where g: "getattr cls t = Some m0" by auto
  let ?c1 = "setattr cls t (TestW (meta_of m0) t m0)"
  have c1: "SetMethod cls t (TestW (def_meta ''test'') t m0) = Some ?c1"
    using g by (simp add: SetMethod_Some)
  have "\<forall>u\<in>set ns. getattr ?c1 u \<noteq> None"
    using Cons.prems by (simp add: getattr_setattr)
  then obtain cls' where "SetTestMethodAttrs ?c1 ns = Some cls'"
    using Cons.IH by blast
  then show ?case using g c1 by simp
qed

lemma meta_init_Some:
  assumes "meta_init cls s = Some (cls', s')"
  obtains m1 m2 c1 c2 where
    "getattr cls ''setUp'' = Some m1"
    "c1 = setattr cls ''setUp'' (SetUpW (meta_of m1) (set (getTestCaseNames cls)) m1)"
    "getattr cls ''tearDown'' = Some m2"
    "c2 = setattr c1 ''tearDown'' (TearDownW (meta_of m2) m2)"
    "SetTestMethodAttrs c2 (getTestCaseNames cls) = Some cls'"
    "s' = s\<lparr>tests_to_run := (tests_to_run s)(cname cls := None)\<rparr>"
proof -
  from assms obtain c1 c2 where
    a: "SetSetUpAttr cls (set (getTestCaseNames cls)) = Some c1"
    and b: "SetTearDownAttr c1 = Some c2"
    and c: "SetTestMethodAttrs c2 (getTestCaseNames cls) = Some cls'"
    and d: "s' = s\<lparr>tests_to_run := (tests_to_run s)(cname cls := None)\<rparr>"
    by (auto simp: meta_init_def Let_def split: option.splits)
  from a obtain m1 where m1: "getattr cls ''setUp'' = Some m1"
    and c1: "c1 = setattr cls ''setUp'' (SetUpW (meta_of m1) (set (getTestCaseNames cls)) m1)"
    by (auto simp: SetSetUpAttr_def SetMethod_Some split: option.splits)
  from b obtain m2 where m2: "getattr c1 ''tearDown'' = Some m2"
    and c2: "c2 = setattr c1 ''tearDown'' (TearDownW (meta_of m2) m2)"
    by (auto simp: SetTearDownAttr_def SetMethod_Some split: option.splits)
  have "getattr cls ''tearDown'' = Some m2"
    using m2 by (simp add: c1 getattr_setattr)
  then show ?thesis using that m1 c1 c2 c d by blast
qed

lemma not_test_names [simp]: "\<not> isTestMethod ''setUp''" "\<not> isTestMethod ''tearDown''"
  by (simp_all add: isTestMethod_def)

lemma meta_init_getattr:
  assumes "meta_init cls s = Some (cls', s')"
  shows "getattr cls' k =
           (if k = ''setUp''
            then map_option (\<lambda>m. SetUpW (meta_of m) (set (getTestCaseNames cls)) m) (getattr cls k)
            else if k = ''tearDown''
            then map_option (\<lambda>m. TearDownW (meta_of m) m) (getattr cls k)
            else if k \<in> set (getTestCaseNames cls)
            then map_option (\<lambda>m. TestW (meta_of m) k m) (getattr cls k)
            else getattr cls k)"
    and "cname cls' = cname cls"
    and "set (getTestCaseNames cls') = set (getTestCaseNames cls)"
    and "tests_to_run s' (cname cls') = None"
proof -
  obtain m1 m2 c1 c2 where
    m1: "getattr cls ''setUp'' = Some m1"
    and c1: "c1 = setattr cls ''setUp'' (SetUpW (meta_of m1) (set (getTestCaseNames cls)) m1)"
    and m2: "getattr cls ''tearDown'' = Some m2"
    and c2: "c2 = setattr c1 ''tearDown'' (TearDownW (meta_of m2) m2)"
    and c3: "SetTestMethodAttrs c2 (getTestCaseNames cls) = Some cls'"
    and s': "s' = s\<lparr>tests_to_run := (tests_to_run s)(cname cls := None)\<rparr>"
    using assms by (rule meta_init_Some)
  have g2: "getattr c2 k =
      (if k = ''tearDown'' then Some (TearDownW (meta_of m2) m2)
       else if k = ''setUp'' then Some (SetUpW (meta_of m1) (set (getTestCaseNames cls)) m1)
       else getattr cls k)" for k
    by (simp add: c2 c1 getattr_setattr)
  have n2: "cname c2 = cname cls" by (simp add: c2 c1)
  have d2: "set (dir c2) = insert ''tearDown'' (insert ''setUp'' (set (dir cls)))"
    by (simp add: c2 c1 set_dir_setattr)
  have loop: "getattr cls' k =
       (if k \<in> set (getTestCaseNames cls) then map_option (\<lambda>m0. TestW (meta_of m0) k m0) (getattr c2 k)
        else getattr c2 k)"
    "cname cls' = cname c2" "set (dir cls') = set (dir c2) \<union> set (getTestCaseNames cls)" for k
    using SetTestMethodAttrs_getattr[OF distinct_names c3, of k] by simp_all
  have nt: "''setUp'' \<notin> set (getTestCaseNames cls)" "''tearDown'' \<notin> set (getTestCaseNames cls)"
    by (simp_all add: set_names)
  show "getattr cls' k =
           (if k = ''setUp''
            then map_option (\<lambda>m. SetUpW (meta_of m) (set (getTestCaseNames cls)) m) (getattr cls k)
            else if k = ''tearDown''
            then map_option (\<lambda>m. TearDownW (meta_of m) m) (getattr cls k)
            else if k \<in> set (getTestCaseNames cls)
            then map_option (\<lambda>m. TestW (meta_of m) k m) (getattr cls k)
            else getattr cls k)"
  proof (cases "k = ''setUp''")
    case True
    then show ?thesis using nt(1) m1 by (simp add: loop(1) g2)
  next
    case nsu: False
    show ?thesis
    proof (cases "k = ''tearDown''")
      case True
      then show ?thesis using nt(2) m2 by (simp add: loop(1) g2)
    next
      case False
      then show ?thesis using nsu by (simp add: loop(1) g2)
    qed
  qed
  show n: "cname cls' = cname cls" by (simp add: loop(2) n2)
  have sub: "set (getTestCaseNames cls) \<subseteq> set (dir cls)" by (auto simp: set_names)
  have "{n \<in> set (dir cls'). isTestMethod n} = {n \<in> set (dir cls). isTestMethod n}"
  proof (rule set_eqI)
    fix x
    show "x \<in> {n \<in> set (dir cls'). isTestMethod n} \<longleftrightarrow> x \<in> {n \<in> set (dir cls). isTestMethod n}"
    proof (cases "isTestMethod x")
      case False
      then show ?thesis by simp
    next
      case True
      then have "x \<noteq> ''setUp''" "x \<noteq> ''tearDown''" by auto
      then show ?thesis using True sub by (simp add: loop(3) d2) blast
    qed
  qed
  then show "set (getTestCaseNames cls') = set (getTestCaseNames cls)"
    by (simp only: set_names)
  show "tests_to_run s' (cname cls') = None" by (simp add: s' n)
qed

lemma meta_init_instrumented:
  assumes "well_formed cls" and "meta_init cls s = Some (cls', s')"
  shows "instrumented cls'"
proof -
  note g = meta_init_getattr[OF assms(2)]
  obtain m1 where m1: "getattr cls ''setUp'' = Some m1" "pure_setUp m1"
    using assms(1) by (auto simp: well_formed_def split: option.splits)
  obtain m2 where m2: "getattr cls ''tearDown'' = Some m2" "pure_tearDown m2"
    using assms(1) by (auto simp: well_formed_def split: option.splits)
  have t: "\<exists>m. getattr cls t = Some m \<and> pure_test t m" if "t \<in> set (getTestCaseNames cls)" for t
    using assms(1) that by (auto simp: well_formed_def list_all_iff split: option.splits)
  have a: "getattr cls' ''setUp'' = Some (SetUpW (meta_of m1) (set (getTestCaseNames cls')) m1)"
    using g(1)[of "''setUp''"] m1 g(3) by simp
  have b: "getattr cls' ''tearDown'' = Some (TearDownW (meta_of m2) m2)"
    using g(1)[of "''tearDown''"] m2 by simp
  have c: "\<exists>m. getattr cls' t = Some (TestW (meta_of m) t m) \<and> pure_test t m"
    if "t \<in> set (getTestCaseNames cls')" for t
  proof -
    have tin: "t \<in> set (getTestCaseNames cls)" using that g(3) by simp
    then have "t \<noteq> ''setUp''" "t \<noteq> ''tearDown''" by (auto simp: set_names)
    then show ?thesis using g(1)[of t] t[OF tin] tin by auto
  qed
  show ?thesis
    unfolding instrumented_def list_all_iff
    using a b m1(2) m2(2) c by fastforce
qed

lemma meta_init_total:
  assumes "well_formed cls"
  shows "\<exists>cls' s'. meta_init cls s = Some (cls', s')"
proof -
  obtain m1 where m1: "getattr cls ''setUp'' = Some m1"
    using assms by (auto simp: well_formed_def split: option.splits)
  obtain m2 where m2: "getattr cls ''tearDown'' = Some m2"
    using assms by (auto simp: well_formed_def split: option.splits)
  let ?N = "set (getTestCaseNames cls)"
  let ?c1 = "setattr cls ''setUp'' (SetUpW (meta_of m1) ?N m1)"
  let ?c2 = "setattr ?c1 ''tearDown'' (TearDownW (meta_of m2) m2)"
  have a: "SetSetUpAttr cls ?N = Some ?c1"
    using m1 by (simp add: SetSetUpAttr_def SetMethod_Some)
  have b: "SetTearDownAttr ?c1 = Some ?c2"
    using m2 by (simp add: SetTearDownAttr_def SetMethod_Some getattr_setattr)
  have "\<forall>t\<in>set (getTestCaseNames cls). getattr ?c2 t \<noteq> None"
    using assms by (auto simp: well_formed_def list_all_iff getattr_setattr split: option.splits)
  then obtain c3 where "SetTestMethodAttrs ?c2 (getTestCaseNames cls) = Some c3"
    using SetTestMethodAttrs_total by blast
  then show ?thesis using a b by (simp add: meta_init_def Let_def)
qed

lemma map_of_decl:
  "map_of (map (\<lambda>(n, b). (n, Orig b)) decl) k = map_option Orig (map_of decl k)"
  by (induction decl) auto

lemma getattr_new_class:
  "getattr (new_class name base decl hb ha) k =
     (case map_of decl k of Some b \<Rightarrow> Some (Orig b) | None \<Rightarrow> getattr base k)"
proof -
  have "mro (new_class name base decl hb ha) =
          \<lparr>l_name = name, l_dict = map (\<lambda>(n, b). (n, Orig b)) decl,
            l_setUpTestCase = hb, l_tearDownTestCase = ha\<rparr> # mro base"
    by (subst mro_def) (simp add: new_class_def)
  then show ?thesis
    by (simp add: getattr_def map_of_decl split: option.splits)
qed

lemma set_dir_new_class:
  "set (dir (new_class name base decl hb ha)) = fst ` set decl \<union> set (dir base)"
  by (auto simp: set_dir new_class_def mro_def image_iff) force+

lemma set_names_new_class:
  "set (getTestCaseNames (new_class name base decl hb ha)) =
     set (getTestCaseNames base) \<union> {n \<in> fst ` set decl. isTestMethod n}"
  by (auto simp: set_names set_dir_new_class)

lemma new_class_well_formed:
  assumes "well_formed base"
  shows "well_formed (new_class name base decl hb ha)"
proof -
  let ?c = "new_class name base decl hb ha"
  have a: "case getattr ?c ''setUp'' of Some m \<Rightarrow> pure_setUp m | None \<Rightarrow> False"
    using assms by (simp add: getattr_new_class well_formed_def split: option.splits)
  have b: "case getattr ?c ''tearDown'' of Some m \<Rightarrow> pure_tearDown m | None \<Rightarrow> False"
    using assms by (simp add: getattr_new_class well_formed_def split: option.splits)
  have c: "case getattr ?c t of Some m \<Rightarrow> pure_test t m | None \<Rightarrow> False"
    if "t \<in> set (getTestCaseNames ?c)" for t
  proof (cases "map_of decl t")
    case (Some b)
    then show ?thesis by (simp add: getattr_new_class)
  next
    case None
    then have "t \<notin> fst ` set decl" by (simp add: map_of_eq_None_iff)
    then have "t \<in> set (getTestCaseNames base)" using that by (simp add: set_names_new_class)
    then have "case getattr base t of Some m \<Rightarrow> pure_test t m | None \<Rightarrow> False"
      using assms by (simp add: well_formed_def list_all_iff)
    then show ?thesis using None by (simp add: getattr_new_class)
  qed
  show ?thesis unfolding well_formed_def list_all_iff using a b c by blast
qed

lemma instrumented_well_formed:
  assumes "instrumented cls"
  shows "well_formed cls"
proof -
  obtain mt1 m1 where a: "getattr cls ''setUp'' = Some (SetUpW mt1 (set (getTestCaseNames cls)) m1)"
    "pure_setUp m1" using assms by (rule instrumented_setUp)
  obtain mt2 m2 where b: "getattr cls ''tearDown'' = Some (TearDownW mt2 m2)" "pure_tearDown m2"
    using assms by (rule instrumented_tearDown)
  have c: "case getattr cls t of Some m \<Rightarrow> pure_test t m | None \<Rightarrow> False"
    if tin: "t \<in> set (getTestCaseNames cls)" for t
  proof -
    obtain mt m where "getattr cls t = Some (TestW mt t m)" "pure_test t m"
      using assms tin by (rule instrumented_test)
    then show ?thesis by simp
  qed
  show ?thesis unfolding well_formed_def list_all_iff using a b c by simp
qed

lemma define_class_instrumented:
  assumes "well_formed base" and "define_class name base decl hb ha s0 = Some (leaf, s1)"
  shows "instrumented leaf"
    and "cname leaf = name"
    and "set (getTestCaseNames leaf) =
           set (getTestCaseNames base) \<union> {n \<in> fst ` set decl. isTestMethod n}"
    and "tests_to_run s1 name = None"
proof -
  have mi: "meta_init (new_class name base decl hb ha) s0 = Some (leaf, s1)"
    using assms(2) by (simp add: define_class_def)
  show "instrumented leaf"
    using meta_init_instrumented[OF new_class_well_formed[OF assms(1)] mi] .
  show n: "cname leaf = name"
    using meta_init_getattr(2)[OF mi] by (simp add: new_class_def cname_def)
  show "set (getTestCaseNames leaf) =
           set (getTestCaseNames base) \<union> {n \<in> fst ` set decl. isTestMethod n}"
    using meta_init_getattr(3)[OF mi] by (simp add: set_names_new_class)
  show "tests_to_run s1 name = None"
    using meta_init_getattr(4)[OF mi] n by simp
qed

lemma define_class_total:
  assumes "well_formed base"
  shows "\<exists>leaf s1. define_class name base decl hb ha s0 = Some (leaf, s1)"
  unfolding define_class_def
  using meta_init_total[OF new_class_well_formed[OF assms]] .

text \<open>
  \<^bold>\<open>C3\<close> (the installed set is the leaf's). Let \<open>leaf\<close> be the class that the class
  statement \<open>class name(base)\<close> defines over a well-formed base, whatever \<open>setUp\<close> it
  declares or inherits. When its \<open>setUp\<close> is called on an instance while the slot of
  \<open>leaf\<close> is the sentinel, the slot holds afterwards exactly the test names visible on
  \<open>leaf\<close>: those visible on the base together with those the class body declares. This
  is so whether \<open>setUpTestCase\<close> and the original \<open>setUp\<close> return or raise.
\<close>

theorem setUp_installs_leaf_names:
  assumes "well_formed base"
    and "define_class name base decl hb ha s0 = Some (leaf, s1)"
    and "tests_to_run s (cname leaf) = None"
  shows "\<exists>m. getattr leaf ''setUp'' = Some m \<and>
           tests_to_run (snd (exec leaf m s)) (cname leaf) = Some (set (getTestCaseNames leaf)) \<and>
           set (getTestCaseNames leaf) =
             set (getTestCaseNames base) \<union> {n \<in> fst ` set decl. isTestMethod n}"
proof (rule exec_setUp_instrumented[OF define_class_instrumented(1)[OF assms(1,2)]])
  fix m
  assume g: "getattr leaf ''setUp'' = Some m"
    and e2: "\<And>s. tests_to_run s (cname leaf) = None \<Longrightarrow>
           exec leaf m s =
             (case setUpTestCase leaf
                     (s\<lparr>tests_to_run := (tests_to_run s)(cname leaf := Some (set (getTestCaseNames leaf)))\<rparr>) of
                (Inl e, s') \<Rightarrow> (Inl e, s')
              | (Inr u, s') \<Rightarrow> call_orig leaf ''setUp'' s')"
  have "tests_to_run (snd (exec leaf m s)) (cname leaf) = Some (set (getTestCaseNames leaf))"
    by (simp add: e2[OF assms(3)] setUpTestCase_def call_orig_def split: outcome.splits)
  then show ?thesis
    using g define_class_instrumented(3)[OF assms(1,2)] by simp
qed

theorem setUp_installs_leaf_names_witness:
  "well_formed ex_A \<and> set (getTestCaseNames ex_A) = {} \<and>
   (\<exists>s1. define_class ''B'' ex_A ex_B_decl None None init_state = Some (ex_B, s1)) \<and>
   map_of (l_dict (own ex_A)) ''setUp'' =
     Some (SetUpW (b_meta (mk_body ''setUp'' ''TestCase.setUp'' Returns)) {}
             (Orig (mk_body ''setUp'' ''TestCase.setUp'' Returns))) \<and>
   (\<exists>m. getattr ex_B ''setUp'' = Some m \<and>
      tests_to_run (snd (exec ex_B m init_state)) ''B'' = Some {''test1'', ''test2'', ''test3''})"
proof -
  have wf: "well_formed ex_A" by code_simp
  have na: "set (getTestCaseNames ex_A) = {}" by code_simp
  have su: "map_of (l_dict (own ex_A)) ''setUp'' =
     Some (SetUpW (b_meta (mk_body ''setUp'' ''TestCase.setUp'' Returns)) {}
             (Orig (mk_body ''setUp'' ''TestCase.setUp'' Returns)))" by code_simp
  obtain l s1 where d: "define_class ''B'' ex_A ex_B_decl None None init_state = Some (l, s1)"
    using define_class_total[OF wf] by blast
  have "ex_B = defined (define_class ''B'' ex_A ex_B_decl None None init_state)"
    by (simp add: ex_B_def ex_B_decl_def)
  then have l: "l = ex_B" by (simp add: d defined_def)
  have d': "define_class ''B'' ex_A ex_B_decl None None init_state = Some (ex_B, s1)"
    using d l by simp
  have c: "cname ex_B = ''B''" by code_simp
  have h3: "tests_to_run init_state (cname ex_B) = None" by (simp add: init_state_def)
  have n: "set (getTestCaseNames ex_B) = {''test1'', ''test2'', ''test3''}" by code_simp
  obtain m where "getattr ex_B ''setUp'' = Some m"
    "tests_to_run (snd (exec ex_B m init_state)) (cname ex_B) = Some (set (getTestCaseNames ex_B))"
    using setUp_installs_leaf_names[OF wf d' h3] by blast
  then have "\<exists>m. getattr ex_B ''setUp'' = Some m \<and>
      tests_to_run (snd (exec ex_B m init_state)) ''B'' = Some {''test1'', ''test2'', ''test3''}"
    by (simp add: c n)
  then show ?thesis using wf na su d' by blast
qed

text \<open>
  \<^bold>\<open>C10\<close> (wrappers keep the metadata). \<^verbatim>\<open>SetMethod\<close> gives the replacement the
  \<^verbatim>\<open>__name__\<close>, \<^verbatim>\<open>__doc__\<close> and \<^verbatim>\<open>__module__\<close> of the method it replaces, so the
  attribute shows the same metadata before and after. The metaclass installs its
  wrappers over \<open>setUp\<close>, \<open>tearDown\<close> and every test method only through
  \<^verbatim>\<open>SetMethod\<close>; hence every method visible on the class has the same metadata
  before and after instrumentation.
\<close>

theorem wrappers_preserve_metadata:
  "(SetMethod cls0 k r = Some cls1 \<longrightarrow>
      map_option meta_of (getattr cls1 k) = map_option meta_of (getattr cls0 k)) \<and>
   (meta_init cls s = Some (cls', s') \<longrightarrow>
      map_option meta_of (getattr cls' n) = map_option meta_of (getattr cls n) \<and>
      getattr cls' ''setUp'' =
        map_option (\<lambda>m. SetUpW (meta_of m) (set (getTestCaseNames cls)) m) (getattr cls ''setUp'') \<and>
      getattr cls' ''tearDown'' =
        map_option (\<lambda>m. TearDownW (meta_of m) m) (getattr cls ''tearDown'') \<and>
      (\<forall>t\<in>set (getTestCaseNames cls).
         getattr cls' t = map_option (\<lambda>m. TestW (meta_of m) t m) (getattr cls t)))"
proof (intro conjI impI)
  assume "SetMethod cls0 k r = Some cls1"
  then show "map_option meta_of (getattr cls1 k) = map_option meta_of (getattr cls0 k)"
    by (rule SetMethod_meta)
next
  assume mi: "meta_init cls s = Some (cls', s')"
  note g = meta_init_getattr(1)[OF mi]
  show "map_option meta_of (getattr cls' n) = map_option meta_of (getattr cls n)"
    by (simp add: g option.map_comp comp_def)
  show "getattr cls' ''setUp'' =
        map_option (\<lambda>m. SetUpW (meta_of m) (set (getTestCaseNames cls)) m) (getattr cls ''setUp'')"
    by (simp add: g)
  show "getattr cls' ''tearDown'' =
        map_option (\<lambda>m. TearDownW (meta_of m) m) (getattr cls ''tearDown'')"
    by (simp add: g)
  show "\<forall>t\<in>set (getTestCaseNames cls).
         getattr cls' t = map_option (\<lambda>m. TestW (meta_of m) t m) (getattr cls t)"
  proof
    fix t assume t: "t \<in> set (getTestCaseNames cls)"
    then have "t \<noteq> ''setUp''" "t \<noteq> ''tearDown''" by (auto simp: set_names)
    then show "getattr cls' t = map_option (\<lambda>m. TestW (meta_of m) t m) (getattr cls t)"
      using t by (simp add: g)
  qed
qed

theorem wrappers_preserve_metadata_witness:
  "(\<exists>s1. meta_init (new_class ''B'' ex_A ex_B_decl None None) init_state = Some (ex_B, s1)) \<and>
   SetMethod TestCase_cls ''setUp''
       (SetUpW (def_meta ''setUp'') {} (Orig (mk_body ''setUp'' ''TestCase.setUp'' Returns))) =
     Some (setattr TestCase_cls ''setUp''
       (SetUpW (b_meta (mk_body ''setUp'' ''TestCase.setUp'' Returns)) {}
          (Orig (mk_body ''setUp'' ''TestCase.setUp'' Returns)))) \<and>
   def_meta ''test'' \<noteq> b_meta (mk_body ''test1'' ''B.test1'' Returns) \<and>
   map_option meta_of (getattr ex_B ''test1'') = Some (b_meta (mk_body ''test1'' ''B.test1'' Returns)) \<and>
   map_option meta_of (getattr ex_B ''setUp'') =
     Some (b_meta (mk_body ''setUp'' ''TestCase.setUp'' Returns)) \<and>
   map_option meta_of (getattr (setattr TestCase_cls ''setUp''
       (SetUpW (b_meta (mk_body ''setUp'' ''TestCase.setUp'' Returns)) {}
          (Orig (mk_body ''setUp'' ''TestCase.setUp'' Returns)))) ''setUp'') =
     Some (b_meta (mk_body ''setUp'' ''TestCase.setUp'' Returns))"
proof -
  let ?r = "SetUpW (def_meta ''setUp'') {} (Orig (mk_body ''setUp'' ''TestCase.setUp'' Returns))"
  let ?X = "setattr TestCase_cls ''setUp''
       (SetUpW (b_meta (mk_body ''setUp'' ''TestCase.setUp'' Returns)) {}
          (Orig (mk_body ''setUp'' ''TestCase.setUp'' Returns)))"
  let ?c = "new_class ''B'' ex_A ex_B_decl None None"
  have wf: "well_formed ex_A" by code_simp
  obtain l s1 where d: "meta_init ?c init_state = Some (l, s1)"
    using meta_init_total[OF new_class_well_formed[OF wf]] by blast
  have "ex_B = defined (meta_init ?c init_state)"
    by (simp add: ex_B_def ex_B_decl_def define_class_def)
  then have l: "l = ex_B" by (simp add: d defined_def)
  have d': "meta_init ?c init_state = Some (ex_B, s1)" using d l by simp
  have sm: "SetMethod TestCase_cls ''setUp'' ?r = Some ?X" by code_simp
  have ne: "def_meta ''test'' \<noteq> b_meta (mk_body ''test1'' ''B.test1'' Returns)" by code_simp
  have b1: "map_option meta_of (getattr ?c ''test1'') = Some (b_meta (mk_body ''test1'' ''B.test1'' Returns))"
    by code_simp
  have b2: "map_option meta_of (getattr ?c ''setUp'') = Some (b_meta (mk_body ''setUp'' ''TestCase.setUp'' Returns))"
    by code_simp
  have b3: "map_option meta_of (getattr TestCase_cls ''setUp'') =
      Some (b_meta (mk_body ''setUp'' ''TestCase.setUp'' Returns))"
    by code_simp
  have a1: "map_option meta_of (getattr ex_B ''test1'') = map_option meta_of (getattr ?c ''test1'')"
    using wrappers_preserve_metadata[where cls = ?c and s = init_state and cls' = ex_B and s' = s1
        and n = "''test1''"] d' by blast
  have a2: "map_option meta_of (getattr ex_B ''setUp'') = map_option meta_of (getattr ?c ''setUp'')"
    using wrappers_preserve_metadata[where cls = ?c and s = init_state and cls' = ex_B and s' = s1
        and n = "''setUp''"] d' by blast
  have a3: "map_option meta_of (getattr ?X ''setUp'') = map_option meta_of (getattr TestCase_cls ''setUp'')"
    using wrappers_preserve_metadata[where ?cls0.0 = TestCase_cls and k = "''setUp''" and r = ?r
        and ?cls1.0 = ?X] sm by blast
  show ?thesis
    using d' sm ne a1 a2 a3 b1 b2 b3 by (simp only:) blast
qed

lemma run_body_result:
  "run_body c b s = (body_result b, s\<lparr>trace := trace s @ [Ran c (b_label b)]\<rparr>)"
  by (simp add: run_body_def body_result_def split: outcome.splits)

lemma exec_chain_setUp:
  "chain_setUp m \<Longrightarrow> tests_to_run s (cname leaf) \<noteq> None \<Longrightarrow>
     exec leaf m s = (fst (user_run (cname leaf) m), s\<lparr>trace := trace s @ snd (user_run (cname leaf) m)\<rparr>)"
proof (induction m arbitrary: s)
  case (Orig b)
  then show ?case by (simp add: run_body_result)
next
  case (Calls b m b')
  let ?s1 = "s\<lparr>trace := trace s @ [Ran (cname leaf) (b_label b)]\<rparr>"
  have ih: "exec leaf m ?s1 =
      (fst (user_run (cname leaf) m), ?s1\<lparr>trace := trace ?s1 @ snd (user_run (cname leaf) m)\<rparr>)"
    using Calls by simp
  show ?case
    by (cases "b_outcome b"; cases "user_run (cname leaf) m"; cases "fst (user_run (cname leaf) m)")
       (simp_all add: run_body_result body_result_def ih)
qed auto

lemma exec_chain_tearDown_idle:
  "chain_tearDown m \<Longrightarrow> tests_to_run s (cname leaf) \<noteq> Some {} \<Longrightarrow>
     exec leaf m s = (fst (user_run (cname leaf) m), s\<lparr>trace := trace s @ snd (user_run (cname leaf) m)\<rparr>)"
proof (induction m arbitrary: s)
  case (Orig b)
  then show ?case by (simp add: run_body_result)
next
  case (Calls b m b')
  let ?s1 = "s\<lparr>trace := trace s @ [Ran (cname leaf) (b_label b)]\<rparr>"
  have ih: "exec leaf m ?s1 =
      (fst (user_run (cname leaf) m), ?s1\<lparr>trace := trace ?s1 @ snd (user_run (cname leaf) m)\<rparr>)"
    using Calls by simp
  show ?case
    by (cases "b_outcome b"; cases "user_run (cname leaf) m"; cases "fst (user_run (cname leaf) m)")
       (simp_all add: run_body_result body_result_def ih)
next
  case (TearDownW mt m)
  have ih: "exec leaf m s =
      (fst (user_run (cname leaf) m), s\<lparr>trace := trace s @ snd (user_run (cname leaf) m)\<rparr>)"
    using TearDownW by simp
  show ?case
    using TearDownW.prems(2)
    by (cases "fst (user_run (cname leaf) m)") (auto simp: ih split: option.splits)
qed auto

lemma exec_chain_test:
  "chain_test t m \<Longrightarrow> tests_to_run s (cname leaf) = Some S \<Longrightarrow> t \<notin> S \<Longrightarrow>
     exec leaf m s = (fst (user_run (cname leaf) m), s\<lparr>trace := trace s @ snd (user_run (cname leaf) m)\<rparr>)"
proof (induction m arbitrary: s)
  case (Orig b)
  then show ?case by (simp add: run_body_result)
next
  case (Calls b m b')
  let ?s1 = "s\<lparr>trace := trace s @ [Ran (cname leaf) (b_label b)]\<rparr>"
  have ih: "exec leaf m ?s1 =
      (fst (user_run (cname leaf) m), ?s1\<lparr>trace := trace ?s1 @ snd (user_run (cname leaf) m)\<rparr>)"
    using Calls by simp
  show ?case
    by (cases "b_outcome b"; cases "user_run (cname leaf) m"; cases "fst (user_run (cname leaf) m)")
       (simp_all add: run_body_result body_result_def ih)
next
  case (TestW mt n m)
  have same: "s\<lparr>tests_to_run := (tests_to_run s)(cname leaf := Some (S - {n}))\<rparr> = s"
    using TestW.prems by (simp add: fun_upd_idem)
  have ih: "exec leaf m s =
      (fst (user_run (cname leaf) m), s\<lparr>trace := trace s @ snd (user_run (cname leaf) m)\<rparr>)"
    using TestW by simp
  show ?case
    using TestW.prems(2) same ih by simp
qed auto

lemma td_post_no_wrapper: "\<not> has_wrapper m \<Longrightarrow> td_post c m = []"
  by (induction m) auto

lemma exec_chain_tearDown_fire:
  "chain_tearDown m \<Longrightarrow> fst (user_run (cname leaf) m) = Inr () \<Longrightarrow>
   tests_to_run s (cname leaf) = Some {} \<Longrightarrow>
     exec leaf m s =
       (if has_wrapper m
        then (case hook_outcome l_tearDownTestCase leaf of
                Returns \<Rightarrow>
                  (Inr (),
                   s\<lparr>tests_to_run := (tests_to_run s)(cname leaf := None),
                     trace := trace s @ td_pre (cname leaf) m @ After (cname leaf) # td_post (cname leaf) m\<rparr>)
              | Raises \<Rightarrow>
                  (Inl (Raised ''tearDownTestCase''),
                   s\<lparr>tests_to_run := (tests_to_run s)(cname leaf := None),
                     trace := trace s @ td_pre (cname leaf) m @ [After (cname leaf)]\<rparr>))
        else (Inr (), s\<lparr>trace := trace s @ td_pre (cname leaf) m\<rparr>))"
proof (induction m arbitrary: s)
  case (Orig b)
  then show ?case by (simp add: run_body_result)
next
  case (Calls b m b')
  let ?c = "cname leaf"
  let ?s1 = "s\<lparr>trace := trace s @ [Ran ?c (b_label b)]\<rparr>"
  have b: "b_outcome b = Returns"
    using Calls.prems(2) by (cases "b_outcome b") simp_all
  obtain r evs where u: "user_run ?c m = (r, evs)" by (cases "user_run ?c m")
  have r: "r = Inr ()" using Calls.prems(2) b u by (cases r) simp_all
  have b': "body_result b' = Inr ()" using Calls.prems(2) b u r by simp
  have bb: "body_result b = Inr ()" using b by (simp add: body_result_def)
  have ih: "exec leaf m ?s1 =
       (if has_wrapper m
        then (case hook_outcome l_tearDownTestCase leaf of
                Returns \<Rightarrow>
                  (Inr (),
                   ?s1\<lparr>tests_to_run := (tests_to_run ?s1)(?c := None),
                     trace := trace ?s1 @ td_pre ?c m @ After ?c # td_post ?c m\<rparr>)
              | Raises \<Rightarrow>
                  (Inl (Raised ''tearDownTestCase''),
                   ?s1\<lparr>tests_to_run := (tests_to_run ?s1)(?c := None),
                     trace := trace ?s1 @ td_pre ?c m @ [After ?c]\<rparr>))
        else (Inr (), ?s1\<lparr>trace := trace ?s1 @ td_pre ?c m\<rparr>))"
    using Calls.prems u r by (intro Calls.IH) simp_all
  show ?case
    by (cases "hook_outcome l_tearDownTestCase leaf")
       (simp_all add: run_body_result bb b' ih)
next
  case (TearDownW mt m)
  let ?c = "cname leaf"
  have ih: "exec leaf m s =
       (if has_wrapper m
        then (case hook_outcome l_tearDownTestCase leaf of
                Returns \<Rightarrow>
                  (Inr (),
                   s\<lparr>tests_to_run := (tests_to_run s)(?c := None),
                     trace := trace s @ td_pre ?c m @ After ?c # td_post ?c m\<rparr>)
              | Raises \<Rightarrow>
                  (Inl (Raised ''tearDownTestCase''),
                   s\<lparr>tests_to_run := (tests_to_run s)(?c := None),
                     trace := trace s @ td_pre ?c m @ [After ?c]\<rparr>))
        else (Inr (), s\<lparr>trace := trace s @ td_pre ?c m\<rparr>))"
    using TearDownW.prems by (intro TearDownW.IH) simp_all
  show ?case
  proof (cases "has_wrapper m")
    case True
    then show ?thesis
      by (cases "hook_outcome l_tearDownTestCase leaf") (simp_all add: ih)
  next
    case False
    then show ?thesis
      using TearDownW.prems(3)
      by (cases "hook_outcome l_tearDownTestCase leaf")
         (simp_all add: ih tearDownTestCase_def td_post_no_wrapper)
  qed
qed auto

lemma chained_setUp:
  assumes "chained cls"
  obtains mt m where "getattr cls ''setUp'' = Some (SetUpW mt (set (getTestCaseNames cls)) m)"
    and "chain_setUp m"
  using assms unfolding chained_def
  by (auto split: option.splits meth.splits)

lemma chained_tearDown:
  assumes "chained cls"
  obtains mt m where "getattr cls ''tearDown'' = Some (TearDownW mt m)" and "chain_tearDown m"
  using assms unfolding chained_def
  by (auto split: option.splits meth.splits)

lemma chained_test:
  assumes "chained cls" and "t \<in> set (getTestCaseNames cls)"
  obtains mt m where "getattr cls t = Some (TestW mt t m)" and "chain_test t m"
proof -
  have "case getattr cls t of Some (TestW mt n m) \<Rightarrow> n = t \<and> chain_test t m | _ \<Rightarrow> False"
    using assms unfolding chained_def by (auto simp: list_all_iff)
  then show ?thesis using that by (auto split: option.splits meth.splits)
qed

lemma run_test_chained:
  assumes ch: "chained cls" and t: "t \<in> set (getTestCaseNames cls)"
    and hb: "hook_outcome l_setUpTestCase cls = Returns"
    and su: "result_at cls ''setUp'' = Inr ()"
    and td: "result_at cls ''tearDown'' = Inr ()"
    and S0: "S0 = (case tests_to_run s (cname cls) of None \<Rightarrow> set (getTestCaseNames cls) | Some S \<Rightarrow> S)"
  shows "snd (run_test cls t s) =
           s\<lparr>tests_to_run := (tests_to_run s)(cname cls := if S0 - {t} = {} then None else Some (S0 - {t})),
             trace := trace s @ (if tests_to_run s (cname cls) = None then [Before (cname cls)] else [])
                        @ (if S0 - {t} = {} then last_test_events cls t else test_events cls t)\<rparr>"
proof -
  let ?c = "cname cls"
  obtain mt1 m1 where g1: "getattr cls ''setUp'' = Some (SetUpW mt1 (set (getTestCaseNames cls)) m1)"
    and p1: "chain_setUp m1" using ch by (rule chained_setUp)
  obtain mt2 m2 where g2: "getattr cls ''tearDown'' = Some (TearDownW mt2 m2)"
    and p2: "chain_tearDown m2" using ch by (rule chained_tearDown)
  obtain mt3 m3 where g3: "getattr cls t = Some (TestW mt3 t m3)"
    and p3: "chain_test t m3" using ch t by (rule chained_test)
  let ?pre = "if tests_to_run s ?c = None then [Before ?c] else []"
  have r1: "fst (user_run ?c m1) = Inr ()" using su g1 by (simp add: result_at_def)
  have r2: "fst (user_run ?c m2) = Inr ()" using td g2 by (simp add: result_at_def)
  have v1: "snd (user_run ?c m1) = events_at cls ''setUp''" using g1 by (simp add: events_at_def)
  have v2: "snd (user_run ?c m2) = events_at cls ''tearDown''" using g2 by (simp add: events_at_def)
  have v3: "snd (user_run ?c m3) = events_at cls t" using g3 by (simp add: events_at_def)
  define s1 where "s1 = s\<lparr>tests_to_run := (tests_to_run s)(?c := Some S0),
                           trace := trace s @ ?pre @ events_at cls ''setUp''\<rparr>"
  have e1: "exec cls (SetUpW mt1 (set (getTestCaseNames cls)) m1) s = (Inr (), s1)"
  proof (cases "tests_to_run s ?c")
    case None
    let ?s0 = "s\<lparr>tests_to_run := (tests_to_run s)(?c := Some (set (getTestCaseNames cls))),
                 trace := trace s @ [Before ?c]\<rparr>"
    have "exec cls m1 ?s0 = (Inr (), ?s0\<lparr>trace := trace ?s0 @ events_at cls ''setUp''\<rparr>)"
      using exec_chain_setUp[OF p1, of ?s0 cls] r1 v1 by simp
    then show ?thesis using None hb S0
      by (simp add: s1_def setUpTestCase_def)
  next
    case (Some S)
    then have idem: "(tests_to_run s)(?c := Some S0) = tests_to_run s"
      using S0 by (simp add: fun_upd_idem)
    have "exec cls m1 s = (Inr (), s\<lparr>trace := trace s @ events_at cls ''setUp''\<rparr>)"
      using exec_chain_setUp[OF p1, of s cls] r1 v1 Some by simp
    then show ?thesis using Some idem by (simp add: s1_def)
  qed
  define s2 where "s2 = s1\<lparr>tests_to_run := (tests_to_run s1)(?c := Some (S0 - {t})),
                            trace := trace s1 @ events_at cls t\<rparr>"
  have e2: "snd (exec cls (TestW mt3 t m3) s1) = s2"
  proof -
    let ?s = "s1\<lparr>tests_to_run := (tests_to_run s1)(?c := Some (S0 - {t}))\<rparr>"
    have "tests_to_run ?s ?c = Some (S0 - {t})" by simp
    then have "exec cls m3 ?s = (fst (user_run ?c m3), ?s\<lparr>trace := trace ?s @ snd (user_run ?c m3)\<rparr>)"
      by (rule exec_chain_test[OF p3]) simp
    then show ?thesis by (simp add: s1_def s2_def v3)
  qed
  define s3 where "s3 = s2\<lparr>tests_to_run := (tests_to_run s2)(?c := if S0 - {t} = {} then None else Some (S0 - {t})),
        trace := trace s2 @ (if S0 - {t} = {} then td_pre_at cls @ After ?c # td_post_at cls
                             else events_at cls ''tearDown'')\<rparr>"
  have e3: "snd (exec cls (TearDownW mt2 m2) s2) = s3"
  proof (cases "S0 - {t} = {}")
    case True
    have a: "chain_tearDown (TearDownW mt2 m2)" using p2 by simp
    have b: "fst (user_run ?c (TearDownW mt2 m2)) = Inr ()" using r2 by simp
    have c: "tests_to_run s2 ?c = Some {}" using True by (simp add: s2_def)
    show ?thesis
      using exec_chain_tearDown_fire[OF a b c] True g2
      by (cases "hook_outcome l_tearDownTestCase cls")
         (simp_all add: s3_def td_pre_at_def td_post_at_def)
  next
    case False
    have a: "chain_tearDown (TearDownW mt2 m2)" using p2 by simp
    have c: "tests_to_run s2 ?c \<noteq> Some {}" using False by (simp add: s2_def)
    have idem: "(tests_to_run s2)(?c := Some (S0 - {t})) = tests_to_run s2"
      by (simp add: s2_def)
    show ?thesis
      using exec_chain_tearDown_idle[OF a c] False r2 v2 idem
      by (simp add: s3_def del: exec.simps)
  qed
  have "snd (run_test cls t s) = s3"
    using e1 e2 e3 g1 g2 g3
    by (auto simp add: run_test_def split: prod.splits simp del: exec.simps)
  also have "s3 = s\<lparr>tests_to_run := (tests_to_run s)(?c := if S0 - {t} = {} then None else Some (S0 - {t})),
             trace := trace s @ ?pre
                        @ (if S0 - {t} = {} then last_test_events cls t else test_events cls t)\<rparr>"
    by (simp add: s3_def s2_def s1_def test_events_def last_test_events_def)
  finally show ?thesis .
qed

lemma run_suite_chained:
  assumes ch: "chained cls"
    and hb: "hook_outcome l_setUpTestCase cls = Returns"
    and su: "result_at cls ''setUp'' = Inr ()"
    and td: "result_at cls ''tearDown'' = Inr ()"
  shows "distinct ts \<Longrightarrow> ts \<noteq> [] \<Longrightarrow> set ts \<subseteq> set (getTestCaseNames cls) \<Longrightarrow>
     (case tests_to_run s (cname cls) of None \<Rightarrow> set (getTestCaseNames cls) | Some S \<Rightarrow> S) = set ts \<Longrightarrow>
     snd (run_suite (map (Pair cls) ts) s) =
       s\<lparr>tests_to_run := (tests_to_run s)(cname cls := None),
         trace := trace s @ (if tests_to_run s (cname cls) = None then [Before (cname cls)] else [])
                    @ concat (map (test_events cls) (butlast ts)) @ last_test_events cls (last ts)\<rparr>"
proof (induction ts arbitrary: s)
  case Nil
  then show ?case by simp
next
  case (Cons t ts)
  let ?c = "cname cls"
  let ?s1 = "snd (run_test cls t s)"
  define S0 where "S0 = (case tests_to_run s ?c of None \<Rightarrow> set (getTestCaseNames cls) | Some S \<Rightarrow> S)"
  have S0eq: "S0 = insert t (set ts)" using Cons.prems(4) by (simp add: S0_def)
  have tn: "t \<notin> set ts" using Cons.prems(1) by simp
  have rem: "S0 - {t} = set ts" using S0eq tn by auto
  have tin: "t \<in> set (getTestCaseNames cls)" using Cons.prems(3) by simp
  have s1: "?s1 = s\<lparr>tests_to_run := (tests_to_run s)(?c := if S0 - {t} = {} then None else Some (S0 - {t})),
             trace := trace s @ (if tests_to_run s ?c = None then [Before ?c] else [])
                        @ (if S0 - {t} = {} then last_test_events cls t else test_events cls t)\<rparr>"
    using run_test_chained[OF ch tin hb su td S0_def] .
  show ?case
  proof (cases "ts = []")
    case True
    then have e: "S0 - {t} = {}" using rem by simp
    have "snd (run_suite (map (Pair cls) (t # ts)) s) = ?s1"
      using True by (simp add: snd_run_suite_Cons del: run_suite.simps(2))
    then show ?thesis using True e by (simp add: s1 fun_upd_def)
  next
    case False
    then have ne: "S0 - {t} \<noteq> {}" using rem by simp
    have st: "tests_to_run ?s1 ?c = Some (set ts)" using False by (simp add: s1 rem)
    have ih: "snd (run_suite (map (Pair cls) ts) ?s1) =
       ?s1\<lparr>tests_to_run := (tests_to_run ?s1)(?c := None),
         trace := trace ?s1 @ (if tests_to_run ?s1 ?c = None then [Before ?c] else [])
                    @ concat (map (test_events cls) (butlast ts)) @ last_test_events cls (last ts)\<rparr>"
    proof (rule Cons.IH)
      show "distinct ts" using Cons.prems(1) by simp
      show "ts \<noteq> []" using False .
      show "set ts \<subseteq> set (getTestCaseNames cls)" using Cons.prems(3) by simp
      show "(case tests_to_run ?s1 ?c of None \<Rightarrow> set (getTestCaseNames cls) | Some S \<Rightarrow> S) = set ts"
        using st by simp
    qed
    have "snd (run_suite (map (Pair cls) (t # ts)) s) = snd (run_suite (map (Pair cls) ts) ?s1)"
      by (simp add: snd_run_suite_Cons del: run_suite.simps)
    also have "\<dots> = ?s1\<lparr>tests_to_run := (tests_to_run ?s1)(?c := None),
         trace := trace ?s1 @ concat (map (test_events cls) (butlast ts)) @ last_test_events cls (last ts)\<rparr>"
      using ih st by simp
    also have "\<dots> = s\<lparr>tests_to_run := (tests_to_run s)(?c := None),
         trace := trace s @ (if tests_to_run s ?c = None then [Before ?c] else [])
                    @ concat (map (test_events cls) (butlast (t # ts))) @ last_test_events cls (last (t # ts))\<rparr>"
      using False ne by (subst s1, subst s1) simp
    finally show ?thesis .
  qed
qed

lemma user_run_events: "e \<in> set (snd (user_run c m)) \<Longrightarrow> \<exists>l. e = Ran c l"
  by (induction m arbitrary: e) (auto split: outcome.splits prod.splits sum.splits)

lemma td_pre_events: "e \<in> set (td_pre c m) \<Longrightarrow> \<exists>l. e = Ran c l"
  by (induction m arbitrary: e) (auto split: if_splits)

lemma td_post_events: "e \<in> set (td_post c m) \<Longrightarrow> \<exists>l. e = Ran c l"
  by (induction m arbitrary: e) (auto split: if_splits)

lemma events_at_Ran: "e \<in> set (events_at cls n) \<Longrightarrow> \<exists>l. e = Ran (cname cls) l"
  using user_run_events by (fastforce simp: events_at_def split: option.splits)

lemma td_pre_at_Ran: "e \<in> set (td_pre_at cls) \<Longrightarrow> \<exists>l. e = Ran (cname cls) l"
  using td_pre_events by (fastforce simp: td_pre_at_def split: option.splits)

lemma td_post_at_Ran: "e \<in> set (td_post_at cls) \<Longrightarrow> \<exists>l. e = Ran (cname cls) l"
  using td_post_events by (fastforce simp: td_post_at_def split: option.splits outcome.splits)

lemma count_hooks_user [simp]:
  "count_list (events_at cls n) (Before c) = 0" "count_list (events_at cls n) (After c) = 0"
  "count_list (td_pre_at cls) (Before c) = 0" "count_list (td_pre_at cls) (After c) = 0"
  "count_list (td_post_at cls) (Before c) = 0" "count_list (td_post_at cls) (After c) = 0"
  using events_at_Ran td_pre_at_Ran td_post_at_Ran
  by (fastforce simp: count_list_0_iff)+

lemma count_hooks_tests [simp]:
  "count_list (concat (map (test_events cls) ts)) (Before c) = 0"
  "count_list (concat (map (test_events cls) ts)) (After c) = 0"
  by (induction ts) (simp_all add: test_events_def)

lemma td_pre_no_wrapper:
  "chain_tearDown m \<Longrightarrow> \<not> has_wrapper m \<Longrightarrow> fst (user_run c m) = Inr () \<Longrightarrow>
     td_pre c m = snd (user_run c m)"
  by (induction m) (auto split: outcome.splits prod.splits sum.splits)

lemma td_not_continued:
  "chain_tearDown m \<Longrightarrow> \<not> continues_after_wrapped m \<Longrightarrow> fst (user_run c m) = Inr () \<Longrightarrow>
     td_pre c m = snd (user_run c m) \<and> td_post c m = []"
proof (induction m)
  case (Calls b m b')
  then have nw: "\<not> has_wrapper m" by simp
  have b: "b_outcome b = Returns"
    using Calls.prems(3) by (cases "b_outcome b") simp_all
  obtain r evs where u: "user_run c m = (r, evs)" by (cases "user_run c m")
  have r: "r = Inr ()" using Calls.prems(3) b u by (cases r) simp_all
  have "td_pre c m = snd (user_run c m)"
    using td_pre_no_wrapper[of m c] Calls.prems(1) nw u r by simp
  then show ?case using nw b u r by simp
qed auto

lemma pure_chain:
  "pure_setUp m \<Longrightarrow> chain_setUp m"
  "pure_tearDown m \<Longrightarrow> chain_tearDown m \<and> \<not> continues_after_wrapped m"
  "pure_test t m \<Longrightarrow> chain_test t m"
  by (induction m) auto

lemma instrumented_chained:
  assumes "instrumented cls"
  shows "chained cls \<and> \<not> tearDown_continues cls"
proof -
  obtain mt1 m1 where a: "getattr cls ''setUp'' = Some (SetUpW mt1 (set (getTestCaseNames cls)) m1)"
    "pure_setUp m1" using assms by (rule instrumented_setUp)
  obtain mt2 m2 where b: "getattr cls ''tearDown'' = Some (TearDownW mt2 m2)" "pure_tearDown m2"
    using assms by (rule instrumented_tearDown)
  have c: "case getattr cls t of Some (TestW mt n m) \<Rightarrow> n = t \<and> chain_test t m | _ \<Rightarrow> False"
    if tin: "t \<in> set (getTestCaseNames cls)" for t
  proof -
    obtain mt m where "getattr cls t = Some (TestW mt t m)" "pure_test t m"
      using assms tin by (rule instrumented_test)
    then show ?thesis by (simp add: pure_chain)
  qed
  show ?thesis
    unfolding chained_def tearDown_continues_def list_all_iff
    using a b c by (simp add: pure_chain)
qed

lemma meta_init_chained:
  assumes "chain_formed cls" and "meta_init cls s = Some (cls', s')"
  shows "chained cls'"
proof -
  note g = meta_init_getattr[OF assms(2)]
  obtain m1 where m1: "getattr cls ''setUp'' = Some m1" "chain_setUp m1"
    using assms(1) by (auto simp: chain_formed_def split: option.splits)
  obtain m2 where m2: "getattr cls ''tearDown'' = Some m2" "chain_tearDown m2"
    using assms(1) by (auto simp: chain_formed_def split: option.splits)
  have t: "\<exists>m. getattr cls t = Some m \<and> chain_test t m" if "t \<in> set (getTestCaseNames cls)" for t
    using assms(1) that by (auto simp: chain_formed_def list_all_iff split: option.splits)
  have a: "getattr cls' ''setUp'' = Some (SetUpW (meta_of m1) (set (getTestCaseNames cls')) m1)"
    using g(1)[of "''setUp''"] m1 g(3) by simp
  have b: "getattr cls' ''tearDown'' = Some (TearDownW (meta_of m2) m2)"
    using g(1)[of "''tearDown''"] m2 by simp
  have c: "\<exists>m. getattr cls' t = Some (TestW (meta_of m) t m) \<and> chain_test t m"
    if "t \<in> set (getTestCaseNames cls')" for t
  proof -
    have tin: "t \<in> set (getTestCaseNames cls)" using that g(3) by simp
    then have "t \<noteq> ''setUp''" "t \<noteq> ''tearDown''" by (auto simp: set_names)
    then show ?thesis using g(1)[of t] t[OF tin] tin by auto
  qed
  show ?thesis
    unfolding chained_def list_all_iff
    using a b m1(2) m2(2) c by fastforce
qed

text \<open>
  \<^bold>\<open>C1\<close>, as the code has it. Let every \<open>setUp\<close>, \<open>tearDown\<close> and test method of \<open>cls\<close> be
  a chain of wrappers and user functions with the wrapper of \<open>cls\<close> outermost, where a
  user function is plain or calls the method it overrides. Run the test methods \<open>ts\<close>
  of \<open>cls\<close> one after the other, in any order, from the uninitialised slot, with
  \<open>setUpTestCase\<close>, the \<open>setUp\<close> code and the \<open>tearDown\<close> code returning normally and
  every test body free to raise. Then \<open>setUpTestCase\<close> fires exactly once, before any
  \<open>setUp\<close> code, and \<open>tearDownTestCase\<close> fires exactly once, during the \<open>tearDown\<close> of
  the last test: after the \<open>tearDown\<close> code up to the end of the innermost wrapped
  \<open>tearDown\<close> (\<open>td_pre_at\<close>) and before the code with which overriding functions
  continue after their call (\<open>td_post_at\<close>, cut short when the hook raises). When no
  \<open>tearDown\<close> function continues after calling a wrapped \<open>tearDown\<close>, nothing follows
  the hook: it fires after all the \<open>tearDown\<close> code of the last test.
\<close>

theorem hooks_fire_once_per_leaf:
  assumes "chained cls"
    and "hook_outcome l_setUpTestCase cls = Returns"
    and "result_at cls ''setUp'' = Inr ()"
    and "result_at cls ''tearDown'' = Inr ()"
    and "distinct ts" and "set ts = set (getTestCaseNames cls)" and "ts \<noteq> []"
    and "tests_to_run s (cname cls) = None"
  shows "\<exists>evs. trace (snd (run_suite (map (Pair cls) ts) s)) = trace s @ evs \<and>
           evs = Before (cname cls) # concat (map (test_events cls) (butlast ts))
                   @ events_at cls ''setUp'' @ events_at cls (last ts)
                   @ td_pre_at cls @ After (cname cls) # td_post_at cls \<and>
           count_list evs (Before (cname cls)) = 1 \<and>
           count_list evs (After (cname cls)) = 1 \<and>
           tests_to_run (snd (run_suite (map (Pair cls) ts) s)) (cname cls) = None \<and>
           (\<not> tearDown_continues cls \<longrightarrow>
              td_post_at cls = [] \<and> td_pre_at cls = events_at cls ''tearDown'')"
proof -
  let ?c = "cname cls"
  let ?evs = "Before ?c # concat (map (test_events cls) (butlast ts))
                   @ events_at cls ''setUp'' @ events_at cls (last ts)
                   @ td_pre_at cls @ After ?c # td_post_at cls"
  have run: "snd (run_suite (map (Pair cls) ts) s) =
       s\<lparr>tests_to_run := (tests_to_run s)(?c := None),
         trace := trace s @ (if tests_to_run s ?c = None then [Before ?c] else [])
                    @ concat (map (test_events cls) (butlast ts)) @ last_test_events cls (last ts)\<rparr>"
    using assms(5-8) by (intro run_suite_chained[OF assms(1-4)]) simp_all
  have a: "trace (snd (run_suite (map (Pair cls) ts) s)) = trace s @ ?evs"
    by (simp add: run assms(8) last_test_events_def)
  have b: "tests_to_run (snd (run_suite (map (Pair cls) ts) s)) ?c = None"
    by (simp add: run)
  have c: "count_list ?evs (Before ?c) = 1" "count_list ?evs (After ?c) = 1"
    by simp_all
  have d: "td_post_at cls = [] \<and> td_pre_at cls = events_at cls ''tearDown''"
    if nc: "\<not> tearDown_continues cls"
  proof -
    obtain mt m where g: "getattr cls ''tearDown'' = Some (TearDownW mt m)"
      and p: "chain_tearDown m" using assms(1) by (rule chained_tearDown)
    have "\<not> continues_after_wrapped m" using nc g by (simp add: tearDown_continues_def)
    moreover have "fst (user_run ?c m) = Inr ()" using assms(4) g by (simp add: result_at_def)
    ultimately have "td_pre ?c m = snd (user_run ?c m) \<and> td_post ?c m = []"
      using td_not_continued[OF p] by blast
    then show ?thesis
      using g by (simp add: td_post_at_def td_pre_at_def events_at_def split: outcome.splits)
  qed
  show ?thesis
    using a b c d by blast
qed

theorem hooks_fire_once_per_leaf_witness:
  "chained ex_D \<and> tearDown_continues ex_D \<and>
   getattr ex_A ''tearDown'' = Some ex_A_tearDown \<and> result_at ex_D ''test1'' = Inl (Raised ''D.test1'') \<and>
   trace (snd (run_suite (map (Pair ex_D) [''test1'', ''test2'']) init_state)) =
     [Before ''D'',
      Ran ''D'' ''D.setUp:1'', Ran ''D'' ''TestCase.setUp'', Ran ''D'' ''D.setUp:2'',
      Ran ''D'' ''D.test1'',
      Ran ''D'' ''D.tearDown:1'', Ran ''D'' ''TestCase.tearDown'', Ran ''D'' ''D.tearDown:2'',
      Ran ''D'' ''D.setUp:1'', Ran ''D'' ''TestCase.setUp'', Ran ''D'' ''D.setUp:2'',
      Ran ''D'' ''D.test2'',
      Ran ''D'' ''D.tearDown:1'', Ran ''D'' ''TestCase.tearDown'',
      After ''D'',
      Ran ''D'' ''D.tearDown:2''] \<and>
   chained ex_B \<and> \<not> tearDown_continues ex_B \<and>
   trace (snd (run_suite (map (Pair ex_B) [''test3'', ''test1'', ''test2'']) init_state)) =
     [Before ''B'',
      Ran ''B'' ''TestCase.setUp'', Ran ''B'' ''B.test3'', Ran ''B'' ''TestCase.tearDown'',
      Ran ''B'' ''TestCase.setUp'', Ran ''B'' ''B.test1'', Ran ''B'' ''TestCase.tearDown'',
      Ran ''B'' ''TestCase.setUp'', Ran ''B'' ''B.test2'', Ran ''B'' ''TestCase.tearDown'',
      After ''B'']"
proof -
  have d1: "chained ex_D" by code_simp
  have d2: "hook_outcome l_setUpTestCase ex_D = Returns" by code_simp
  have d3: "result_at ex_D ''setUp'' = Inr ()" by code_simp
  have d4: "result_at ex_D ''tearDown'' = Inr ()" by code_simp
  have d5: "distinct [''test1'', ''test2'']" by simp
  have d6: "set [''test1'', ''test2''] = set (getTestCaseNames ex_D)" by code_simp
  have d7: "[''test1'', ''test2''] \<noteq> []" by simp
  have d8: "tests_to_run init_state (cname ex_D) = None" by (simp add: init_state_def)
  have dc: "tearDown_continues ex_D" by code_simp
  have da: "getattr ex_A ''tearDown'' = Some ex_A_tearDown" by code_simp
  have dr: "result_at ex_D ''test1'' = Inl (Raised ''D.test1'')" by code_simp
  have dn: "cname ex_D = ''D''" by code_simp
  have de: "test_events ex_D ''test1'' =
      [Ran ''D'' ''D.setUp:1'', Ran ''D'' ''TestCase.setUp'', Ran ''D'' ''D.setUp:2'',
       Ran ''D'' ''D.test1'',
       Ran ''D'' ''D.tearDown:1'', Ran ''D'' ''TestCase.tearDown'', Ran ''D'' ''D.tearDown:2'']"
    "events_at ex_D ''setUp'' =
      [Ran ''D'' ''D.setUp:1'', Ran ''D'' ''TestCase.setUp'', Ran ''D'' ''D.setUp:2'']"
    "events_at ex_D ''test2'' = [Ran ''D'' ''D.test2'']"
    "td_pre_at ex_D = [Ran ''D'' ''D.tearDown:1'', Ran ''D'' ''TestCase.tearDown'']"
    "td_post_at ex_D = [Ran ''D'' ''D.tearDown:2'']"
    by code_simp+
  have i: "trace init_state = []" by (simp add: init_state_def)
  have D: "trace (snd (run_suite (map (Pair ex_D) [''test1'', ''test2'']) init_state)) =
     [Before ''D'',
      Ran ''D'' ''D.setUp:1'', Ran ''D'' ''TestCase.setUp'', Ran ''D'' ''D.setUp:2'',
      Ran ''D'' ''D.test1'',
      Ran ''D'' ''D.tearDown:1'', Ran ''D'' ''TestCase.tearDown'', Ran ''D'' ''D.tearDown:2'',
      Ran ''D'' ''D.setUp:1'', Ran ''D'' ''TestCase.setUp'', Ran ''D'' ''D.setUp:2'',
      Ran ''D'' ''D.test2'',
      Ran ''D'' ''D.tearDown:1'', Ran ''D'' ''TestCase.tearDown'',
      After ''D'',
      Ran ''D'' ''D.tearDown:2'']"
    using hooks_fire_once_per_leaf[OF d1 d2 d3 d4 d5 d6 d7 d8]
    by (auto simp: dn de i simp del: run_suite.simps)
  have b1: "chained ex_B" by code_simp
  have b2: "hook_outcome l_setUpTestCase ex_B = Returns" by code_simp
  have b3: "result_at ex_B ''setUp'' = Inr ()" by code_simp
  have b4: "result_at ex_B ''tearDown'' = Inr ()" by code_simp
  have b5: "distinct [''test3'', ''test1'', ''test2'']" by simp
  have b6: "set [''test3'', ''test1'', ''test2''] = set (getTestCaseNames ex_B)" by code_simp
  have b7: "[''test3'', ''test1'', ''test2''] \<noteq> []" by simp
  have b8: "tests_to_run init_state (cname ex_B) = None" by (simp add: init_state_def)
  have bc: "\<not> tearDown_continues ex_B" by code_simp
  have bn: "cname ex_B = ''B''" by code_simp
  have be: "test_events ex_B ''test3'' =
      [Ran ''B'' ''TestCase.setUp'', Ran ''B'' ''B.test3'', Ran ''B'' ''TestCase.tearDown'']"
    "test_events ex_B ''test1'' =
      [Ran ''B'' ''TestCase.setUp'', Ran ''B'' ''B.test1'', Ran ''B'' ''TestCase.tearDown'']"
    "events_at ex_B ''setUp'' = [Ran ''B'' ''TestCase.setUp'']"
    "events_at ex_B ''test2'' = [Ran ''B'' ''B.test2'']"
    "events_at ex_B ''tearDown'' = [Ran ''B'' ''TestCase.tearDown'']"
    by code_simp+
  have B: "trace (snd (run_suite (map (Pair ex_B) [''test3'', ''test1'', ''test2'']) init_state)) =
     [Before ''B'',
      Ran ''B'' ''TestCase.setUp'', Ran ''B'' ''B.test3'', Ran ''B'' ''TestCase.tearDown'',
      Ran ''B'' ''TestCase.setUp'', Ran ''B'' ''B.test1'', Ran ''B'' ''TestCase.tearDown'',
      Ran ''B'' ''TestCase.setUp'', Ran ''B'' ''B.test2'', Ran ''B'' ''TestCase.tearDown'',
      After ''B'']"
    using hooks_fire_once_per_leaf[OF b1 b2 b3 b4 b5 b6 b7 b8] bc
    by (auto simp: bn be i simp del: run_suite.simps)
  show ?thesis
    using d1 dc da dr D b1 bc B by (intro conjI)
qed

theorem after_hook_inside_tearDown_counterexample:
  "getattr ex_A ''tearDown'' = Some ex_A_tearDown \<and>
   map_of (l_dict (own (class_stmt ''D'' ex_A
     [(''setUp'', Calls (mk_body ''setUp'' ''D.setUp:1'' Returns) ex_A_setUp
                     (mk_body ''setUp'' ''D.setUp:2'' Returns)),
      (''tearDown'', Calls (mk_body ''tearDown'' ''D.tearDown:1'' Returns) ex_A_tearDown
                        (mk_body ''tearDown'' ''D.tearDown:2'' Returns)),
      (''test1'', Orig (mk_body ''test1'' ''D.test1'' Raises)),
      (''test2'', Orig (mk_body ''test2'' ''D.test2'' Returns))] None None))) ''tearDown'' =
     Some (Calls (mk_body ''tearDown'' ''D.tearDown:1'' Returns) ex_A_tearDown
             (mk_body ''tearDown'' ''D.tearDown:2'' Returns)) \<and>
   fst (run_suite [(ex_D, ''test1''), (ex_D, ''test2'')] init_state) =
     [Finished (Inl (Raised ''D.test1'')) (Inr ()), Finished (Inr ()) (Inr ())] \<and>
   trace (snd (run_suite [(ex_D, ''test1''), (ex_D, ''test2'')] init_state)) =
     [Before ''D'',
      Ran ''D'' ''D.setUp:1'', Ran ''D'' ''TestCase.setUp'', Ran ''D'' ''D.setUp:2'',
      Ran ''D'' ''D.test1'',
      Ran ''D'' ''D.tearDown:1'', Ran ''D'' ''TestCase.tearDown'', Ran ''D'' ''D.tearDown:2'',
      Ran ''D'' ''D.setUp:1'', Ran ''D'' ''TestCase.setUp'', Ran ''D'' ''D.setUp:2'',
      Ran ''D'' ''D.test2'',
      Ran ''D'' ''D.tearDown:1'', Ran ''D'' ''TestCase.tearDown'',
      After ''D'',
      Ran ''D'' ''D.tearDown:2''] \<and>
   last (trace (snd (run_suite [(ex_D, ''test1''), (ex_D, ''test2'')] init_state))) \<noteq> After ''D''"
  by code_simp

end
